theory Spec2Isabelle
  imports Main
begin

section \<open>The device authorization flow of \<open>cli/device-flow.ts\<close>\<close>

text \<open>
  The flow talks to the outside world at a fixed set of places: two HTTP endpoints, the
  caller's two callbacks, the wall clock, the pacing timer and the credential store. The
  model makes each of them explicit. What the world answers is an input (\<open>env\<close> and the
  callbacks in \<open>DeviceFlowOptions\<close>); what the flow does to the world is an output, the
  time-stamped \<open>trace\<close> of its effects, returned beside the result.

  Conventions.
  \<^item> Times are milliseconds as \<open>Date.now()\<close> reads them (\<open>int\<close>); \<open>expires_in\<close> and
    \<open>interval\<close> are whole seconds (\<open>int\<close>, any sign). JavaScript's non-integral numbers,
    \<open>NaN\<close> and fields missing from the (unchecked) JSON are outside the model. A
    JavaScript number is a double: \<open>interval += 5\<close> is modelled with the rounding of the
    double sum (\<open>js_add\<close>). The clock and the deadline are added as integers, which is
    what the double sum is while they stay within \<open>2 ^ 53\<close> in absolute value, as
    milliseconds of a calendar date do.
  \<^item> How long a wait or a request really takes is the world's choice (\<open>sleep_took\<close>,
    \<open>poll_took\<close>, \<open>code_took\<close>, natural numbers: the clock never runs backwards).
    The callbacks are synchronous and take no time of their own.
  \<^item> A JavaScript call either returns or throws; a thrown value is an \<open>Error\<close> with
    its message or some other value.
  \<^item> The world's answers to the polls are a finite script (a \<open>cycle list\<close>), one
    entry per cycle of the loop. A flow that is still polling when the script ends has no
    result yet (\<open>None\<close>).
\<close>

subsection \<open>Values, exceptions, HTTP responses\<close>

datatype js_exn = Error string | NonError

datatype 'a js_result = Returns 'a | Throws js_exn

text \<open>The catch clause: \<open>error instanceof Error ? error.message : 'Unknown error'\<close>.\<close>

fun message :: "js_exn \<Rightarrow> string" where
  "message (Error m) = m"
| "message NonError = ''Unknown error''"

text \<open>
  An optional string field in a condition (\<open>if (x.error)\<close>, \<open>a || b\<close>): absent and
  the empty string are both falsy. \<open>populated\<close> keeps the value exactly when it is truthy.
\<close>

fun populated :: "string option \<Rightarrow> string option" where
  "populated None = None"
| "populated (Some s) = (if s = [] then None else Some s)"

record 'a response =
  status :: nat
  body_text :: "string js_result"
  body_json :: "'a js_result"

definition ok :: "'a response \<Rightarrow> bool" where
  "ok r = (200 \<le> status r \<and> status r \<le> 299)"

subsection \<open>The data model\<close>

text \<open>
  Modelled from the spec: the declarations of \<open>types/index.ts\<close> (\<open>DeviceCodeResponse\<close>,
  \<open>DeviceTokenResponse\<close>, \<open>DeviceAuthResult\<close>, \<open>DeviceFlowOptions\<close>,
  \<open>SaveContextCredentials\<close>) are not among the source files. The records below take
  their fields from the data model of the spec and from the fields \<open>device-flow.ts\<close>
  reads and writes; an optional field is an \<open>option\<close>. Where two of the source's types
  share a field name, the fields of the result carry the prefix \<open>res_\<close> and those of the
  credentials \<open>cred_\<close>. \<open>createdAt\<close> is the clock reading that the source renders as an
  ISO string.
\<close>

record DeviceCodeResponse =
  device_code :: string
  user_code :: string
  verification_uri :: string
  expires_in :: int
  interval :: int

record DeviceTokenResponse =
  error :: "string option"
  api_key :: "string option"
  key_prefix :: "string option"
  user_id :: "string option"
  email :: "string option"
  provider :: "string option"

record DeviceAuthResult =
  success :: bool
  apiKey :: "string option"
  keyPrefix :: "string option"
  userId :: "string option"
  res_email :: "string option"
  res_provider :: "string option"
  res_error :: "string option"

record SaveContextCredentials =
  cred_apiKey :: string
  cred_email :: "string option"
  cred_provider :: "string option"
  createdAt :: int

text \<open>
  \<open>onPolling\<close> is optional; a supplied callback may keep state of its own, so its
  behaviour is given per call (the argument counts the earlier calls).
  \<open>saveCredentials\<close> is the optional flag, defaulting to true.
\<close>

record DeviceFlowOptions =
  onCodeReceived :: "string \<Rightarrow> string \<Rightarrow> unit js_result"
  onPolling :: "(nat \<Rightarrow> unit js_result) option"
  saveCredentials :: "bool option"

subsection \<open>The world\<close>

record cycle =
  sleep_took :: nat
  token_fetch :: "DeviceTokenResponse response js_result"
  poll_took :: nat

text \<open>
  \<open>saveCredentials\<close> of \<open>utils/config.ts\<close> creates the configuration directory where
  it is missing and writes the credentials file; either step can throw. The model records
  the call in the trace and takes its outcome from the world (\<open>save_result\<close>).
\<close>

record env =
  api_url_env :: "string option"
  start :: int
  code_fetch :: "DeviceCodeResponse response js_result"
  code_took :: nat
  save_result :: "unit js_result"

text \<open>
  What the flow does to the world, each with the time at which it does it: the two
  requests (with the URL, and for the token request the device code in its body), the
  calls of the two callbacks, the sleep (with the seconds asked for; it is recorded at the
  time it begins) and the call of the credential store.
\<close>

datatype event =
    CodeRequest string
  | CodeReceived string string
  | Sleep int
  | Polling
  | TokenRequest string string
  | SaveCredentials SaveContextCredentials

type_synonym trace = "(int \<times> event) list"

subsection \<open>\<open>utils/config.ts\<close>: the base URL\<close>

definition CLOUD_API_URL :: string where
  "CLOUD_API_URL = ''https://mcp.savecontext.dev''"

definition getCloudApiUrl :: "env \<Rightarrow> string" where
  "getCloudApiUrl e =
     (case populated (api_url_env e) of Some url \<Rightarrow> url | None \<Rightarrow> CLOUD_API_URL)"

subsection \<open>The two requests\<close>

definition DEVICE_CODE_ENDPOINT :: string where
  "DEVICE_CODE_ENDPOINT = ''/auth/device/code''"

definition DEVICE_TOKEN_ENDPOINT :: string where
  "DEVICE_TOKEN_ENDPOINT = ''/auth/device/token''"

definition requestDeviceCode :: "env \<Rightarrow> trace \<times> DeviceCodeResponse js_result" where
  "requestDeviceCode e =
     ([(start e, CodeRequest (getCloudApiUrl e @ DEVICE_CODE_ENDPOINT))],
      case code_fetch e of
        Throws x \<Rightarrow> Throws x
      | Returns r \<Rightarrow>
          if \<not> ok r then
            (case body_text r of
               Throws x \<Rightarrow> Throws x
             | Returns b \<Rightarrow> Throws (Error (''Failed to request device code: '' @ b)))
          else body_json r)"

text \<open>
  What \<open>pollForToken\<close> hands back in a cycle, from what the world answers to the
  request: JSON is parsed for 2xx and for 400, any other status is an error.
\<close>

definition polled :: "cycle \<Rightarrow> DeviceTokenResponse js_result" where
  "polled c =
     (case token_fetch c of
        Throws x \<Rightarrow> Throws x
      | Returns r \<Rightarrow>
          if ok r \<or> status r = 400 then body_json r
          else
            (case body_text r of
               Throws x \<Rightarrow> Throws x
             | Returns b \<Rightarrow> Throws (Error (''Failed to poll for token: '' @ b))))"

text \<open>The \<open>interval\<close> parameter is unused by the source as well.\<close>

definition pollForToken ::
  "env \<Rightarrow> cycle \<Rightarrow> int \<Rightarrow> string \<Rightarrow> int \<Rightarrow> trace \<times> DeviceTokenResponse js_result" where
  "pollForToken e c now deviceCode ival =
     ([(now, TokenRequest (getCloudApiUrl e @ DEVICE_TOKEN_ENDPOINT) deviceCode)], polled c)"

subsection \<open>One cycle of the polling loop\<close>

definition failure :: "string \<Rightarrow> DeviceAuthResult" where
  "failure m =
     \<lparr>success = False, apiKey = None, keyPrefix = None, userId = None,
      res_email = None, res_provider = None, res_error = Some m\<rparr>"

definition authorized :: "string \<Rightarrow> DeviceTokenResponse \<Rightarrow> DeviceAuthResult" where
  "authorized k tokenResponse =
     \<lparr>success = True, apiKey = Some k, keyPrefix = key_prefix tokenResponse,
      userId = user_id tokenResponse, res_email = email tokenResponse,
      res_provider = provider tokenResponse, res_error = None\<rparr>"

text \<open>
  What the body of the loop decides: \<open>continue\<close> with an interval, \<open>return\<close> a result,
  or an exception on its way to the catch clause.
\<close>

datatype action = Continue int | Return DeviceAuthResult | Raise js_exn

text \<open>
  The sum of two JavaScript numbers that are integers. A double carries 53 significant
  bits: every integer up to \<open>2 ^ 53\<close> in absolute value is a double, and a larger one is a
  double only if the bits below its highest 53 are zero. The sum is the exact sum rounded
  to the nearest double, a tie going to the double whose last significant bit is zero.
  (Beyond the largest double, about \<open>2 ^ 1024\<close>, a JavaScript sum is \<open>Infinity\<close>; adding 5
  to a double never gets there.)
\<close>

fun bit_length :: "nat \<Rightarrow> nat" where
  "bit_length n = (if n = 0 then 0 else Suc (bit_length (n div 2)))"

declare bit_length.simps [simp del]

definition round_double :: "int \<Rightarrow> int" where
  "round_double x =
     (if \<bar>x\<bar> \<le> 2 ^ 53 then x
      else
        (let m = nat \<bar>x\<bar>;
             ulp = 2 ^ (bit_length m - 53);
             q = m div ulp;
             r = m mod ulp;
             q' = (if 2 * r < ulp then q
                   else if ulp < 2 * r then q + 1
                   else if even q then q else q + 1)
         in sgn x * int (q' * ulp)))"

definition js_add :: "int \<Rightarrow> int \<Rightarrow> int" where
  "js_add a b = round_double (a + b)"

text \<open>The \<open>switch\<close> over a truthy \<open>tokenResponse.error\<close>.\<close>

definition on_error :: "string \<Rightarrow> int \<Rightarrow> action" where
  "on_error code ival =
     (if code = ''authorization_pending'' then Continue ival
      else if code = ''slow_down'' then Continue (js_add ival 5)
      else if code = ''expired_token'' then
        Return (failure ''Device code expired. Please try again.'')
      else if code = ''access_denied'' then
        Return (failure ''Authorization denied by user.'')
      else Return (failure (''Unknown error: '' @ code)))"

definition shouldSave :: "DeviceFlowOptions \<Rightarrow> bool" where
  "shouldSave opts = (case saveCredentials opts of None \<Rightarrow> True | Some b \<Rightarrow> b)"

text \<open>Everything after the poll has returned a parsed response.\<close>

definition on_token ::
  "DeviceFlowOptions \<Rightarrow> env \<Rightarrow> int \<Rightarrow> int \<Rightarrow> DeviceTokenResponse \<Rightarrow> trace \<times> action" where
  "on_token opts e now ival tokenResponse =
     (case populated (error tokenResponse) of
        Some code \<Rightarrow> ([], on_error code ival)
      | None \<Rightarrow>
          (case populated (api_key tokenResponse) of
             Some k \<Rightarrow>
               if shouldSave opts then
                 ([(now, SaveCredentials
                      \<lparr>cred_apiKey = k, cred_email = email tokenResponse,
                       cred_provider = provider tokenResponse, createdAt = now\<rparr>)],
                  case save_result e of
                    Throws x \<Rightarrow> Raise x
                  | Returns _ \<Rightarrow> Return (authorized k tokenResponse))
               else ([], Return (authorized k tokenResponse))
           | None \<Rightarrow> ([], Continue ival)))"

text \<open>
  \<open>if (onPolling) { onPolling(); }\<close>: the call as it shows in the trace, and what the
  \<open>n\<close>-th call does.
\<close>

definition pinged :: "DeviceFlowOptions \<Rightarrow> int \<Rightarrow> trace" where
  "pinged opts now = (case onPolling opts of None \<Rightarrow> [] | Some f \<Rightarrow> [(now, Polling)])"

definition notified :: "DeviceFlowOptions \<Rightarrow> nat \<Rightarrow> unit js_result" where
  "notified opts n = (case onPolling opts of None \<Rightarrow> Returns () | Some f \<Rightarrow> f n)"

text \<open>
  The body of the \<open>while\<close>: sleep, notify, poll, decide. The sleep starts at \<open>now\<close>, the
  time of the loop's test; the poll is sent when the sleep ends and answered \<open>poll_took\<close>
  later.
\<close>

definition cycle_body ::
  "DeviceFlowOptions \<Rightarrow> env \<Rightarrow> DeviceCodeResponse \<Rightarrow> cycle \<Rightarrow> nat \<Rightarrow> int \<Rightarrow> int
     \<Rightarrow> trace \<times> action" where
  "cycle_body opts e codeResponse c n now ival =
     (let woke = now + int (sleep_took c);
          answered = woke + int (poll_took c);
          slept = [(now, Sleep ival)];
          ping = pinged opts woke
      in case notified opts n of
           Throws x \<Rightarrow> (slept @ ping, Raise x)
         | Returns _ \<Rightarrow>
             (case pollForToken e c woke (device_code codeResponse) ival of
                (req, Throws x) \<Rightarrow> (slept @ ping @ req, Raise x)
              | (req, Returns tokenResponse) \<Rightarrow>
                  (case on_token opts e answered ival tokenResponse of
                     (saved, a) \<Rightarrow> (slept @ ping @ req @ saved, a))))"

definition elapsed :: "cycle \<Rightarrow> int" where
  "elapsed c = int (sleep_took c) + int (poll_took c)"

subsection \<open>The loop and the flow\<close>

definition expired :: DeviceAuthResult where
  "expired = failure ''Device code expired. Please try again.''"

definition after :: "trace \<Rightarrow> trace \<times> 'a \<Rightarrow> trace \<times> 'a" where
  "after evs p = (evs @ fst p, snd p)"

fun poll_loop ::
  "DeviceFlowOptions \<Rightarrow> env \<Rightarrow> DeviceCodeResponse \<Rightarrow> int \<Rightarrow> cycle list \<Rightarrow> nat \<Rightarrow> int \<Rightarrow> int
     \<Rightarrow> trace \<times> DeviceAuthResult js_result option" where
  "poll_loop opts e codeResponse expiresAt [] n now ival =
     (if now < expiresAt then ([], None) else ([], Some (Returns expired)))"
| "poll_loop opts e codeResponse expiresAt (c # cs) n now ival =
     (if now < expiresAt then
        (case cycle_body opts e codeResponse c n now ival of
           (evs, Continue ival') \<Rightarrow>
             after evs
               (poll_loop opts e codeResponse expiresAt cs (Suc n) (now + elapsed c) ival')
         | (evs, Return r) \<Rightarrow> (evs, Some (Returns r))
         | (evs, Raise x) \<Rightarrow> (evs, Some (Throws x)))
      else ([], Some (Returns expired)))"

text \<open>The \<open>try\<close> block of \<open>executeDeviceFlow\<close>.\<close>

definition try_block ::
  "DeviceFlowOptions \<Rightarrow> env \<Rightarrow> cycle list \<Rightarrow> trace \<times> DeviceAuthResult js_result option"
  where
  "try_block opts e cs =
     (case requestDeviceCode e of
        (req, Throws x) \<Rightarrow> (req, Some (Throws x))
      | (req, Returns codeResponse) \<Rightarrow>
          (let now = start e + int (code_took e);
               shown = [(now, CodeReceived (user_code codeResponse)
                                (verification_uri codeResponse))]
           in case onCodeReceived opts (user_code codeResponse)
                     (verification_uri codeResponse) of
                Throws x \<Rightarrow> (req @ shown, Some (Throws x))
              | Returns _ \<Rightarrow>
                  (let expiresAt = now + expires_in codeResponse * 1000
                   in after (req @ shown)
                        (poll_loop opts e codeResponse expiresAt cs 0 now
                           (interval codeResponse)))))"

text \<open>The \<open>catch\<close> clause, and the whole function: the \<open>try\<close> block under it.\<close>

definition catch_clause :: "DeviceAuthResult js_result \<Rightarrow> DeviceAuthResult" where
  "catch_clause res = (case res of Returns r \<Rightarrow> r | Throws x \<Rightarrow> failure (message x))"

definition executeDeviceFlow ::
  "DeviceFlowOptions \<Rightarrow> env \<Rightarrow> cycle list \<Rightarrow> trace \<times> DeviceAuthResult option" where
  "executeDeviceFlow opts e cs =
     (case try_block opts e cs of (tr, res) \<Rightarrow> (tr, map_option catch_clause res))"

subsection \<open>Reading a run\<close>

text \<open>
  The notions the statements below are phrased in. The error code a cycle's poll
  delivers (if the poll returns a parsed response whose \<open>error\<close> is truthy):
\<close>

definition poll_error :: "cycle \<Rightarrow> string option" where
  "poll_error c = (case polled c of Throws x \<Rightarrow> None | Returns tok \<Rightarrow> populated (error tok))"

text \<open>
  A cycle is quiet when nothing in it ends the flow: the notification returns, the poll
  returns a parsed response, and the response is \<open>authorization_pending\<close>,
  \<open>slow_down\<close>, or carries neither an error nor a key.
\<close>

definition quiet :: "DeviceFlowOptions \<Rightarrow> nat \<Rightarrow> cycle \<Rightarrow> bool" where
  "quiet opts n c =
     (notified opts n = Returns () \<and>
      (case polled c of
         Throws x \<Rightarrow> False
       | Returns tok \<Rightarrow>
           (case populated (error tok) of
              Some code \<Rightarrow> code = ''authorization_pending'' \<or> code = ''slow_down''
            | None \<Rightarrow> populated (api_key tok) = None)))"

text \<open>The poll of a cycle returns an authorized response: no error, a populated key.\<close>

definition grants :: "cycle \<Rightarrow> string \<Rightarrow> DeviceTokenResponse \<Rightarrow> bool" where
  "grants c k tok =
     (polled c = Returns tok \<and> populated (error tok) = None \<and>
      populated (api_key tok) = Some k)"

text \<open>What a quiet cycle leaves in the trace.\<close>

definition quiet_events ::
  "DeviceFlowOptions \<Rightarrow> env \<Rightarrow> DeviceCodeResponse \<Rightarrow> cycle \<Rightarrow> int \<Rightarrow> int \<Rightarrow> trace" where
  "quiet_events opts e code c now ival =
     (now, Sleep ival) # pinged opts (now + int (sleep_took c)) @
     [(now + int (sleep_took c),
       TokenRequest (getCloudApiUrl e @ DEVICE_TOKEN_ENDPOINT) (device_code code))]"

text \<open>
  The time at which the code has been received and shown, which is when the flow reads
  the clock for its deadline; the deadline (\<open>expiresAt\<close>); the trace up to there.
\<close>

definition received_at :: "env \<Rightarrow> int" where
  "received_at e = start e + int (code_took e)"

definition deadline :: "env \<Rightarrow> DeviceCodeResponse \<Rightarrow> int" where
  "deadline e code = received_at e + expires_in code * 1000"

definition prologue :: "env \<Rightarrow> DeviceCodeResponse \<Rightarrow> trace" where
  "prologue e code =
     [(start e, CodeRequest (getCloudApiUrl e @ DEVICE_CODE_ENDPOINT)),
      (received_at e, CodeReceived (user_code code) (verification_uri code))]"

text \<open>
  The clock and the interval after a run of quiet cycles; the interval grows by the
  source's addition of 5 at each \<open>slow_down\<close>.
\<close>

definition clock_after :: "int \<Rightarrow> cycle list \<Rightarrow> int" where
  "clock_after now cs = now + sum_list (map elapsed cs)"

fun interval_after :: "int \<Rightarrow> cycle list \<Rightarrow> int" where
  "interval_after ival [] = ival"
| "interval_after ival (c # cs) =
     interval_after (if poll_error c = Some ''slow_down'' then js_add ival 5 else ival) cs"

text \<open>
  Projections of a trace: the intervals slept for, the times at which cycles began (the
  time of the loop's test, where the sleep starts), the times at which polls were sent,
  the codes shown to the user, the credentials saved and when.
\<close>

fun sleeps :: "trace \<Rightarrow> int list" where
  "sleeps [] = []"
| "sleeps ((t, Sleep i) # tr) = i # sleeps tr"
| "sleeps (ev # tr) = sleeps tr"

fun cycle_starts :: "trace \<Rightarrow> int list" where
  "cycle_starts [] = []"
| "cycle_starts ((t, Sleep i) # tr) = t # cycle_starts tr"
| "cycle_starts (ev # tr) = cycle_starts tr"

fun polls :: "trace \<Rightarrow> int list" where
  "polls [] = []"
| "polls ((t, TokenRequest u d) # tr) = t # polls tr"
| "polls (ev # tr) = polls tr"

fun shown :: "trace \<Rightarrow> (string \<times> string) list" where
  "shown [] = []"
| "shown ((t, CodeReceived u v) # tr) = (u, v) # shown tr"
| "shown (ev # tr) = shown tr"

fun saves :: "trace \<Rightarrow> (int \<times> SaveContextCredentials) list" where
  "saves [] = []"
| "saves ((t, SaveCredentials cr) # tr) = (t, cr) # saves tr"
| "saves (ev # tr) = saves tr"

text \<open>The result the \<open>switch\<close> returns for an error code that ends the flow.\<close>

definition terminal_result :: "string \<Rightarrow> DeviceAuthResult" where
  "terminal_result code =
     (if code = ''expired_token'' then failure ''Device code expired. Please try again.''
      else if code = ''access_denied'' then failure ''Authorization denied by user.''
      else failure (''Unknown error: '' @ code))"

subsection \<open>Sample runs\<close>

text \<open>
  Concrete inputs, used below to exercise the statements: a grant valid for ten minutes
  with a five-second interval, a world in which every wait takes exactly as long as asked
  for and every request a little, and callbacks that do nothing.
\<close>

definition sample_grant :: DeviceCodeResponse where
  "sample_grant =
     \<lparr>device_code = ''d1'', user_code = ''ABCD-1234'',
      verification_uri = ''https://x/verify'', expires_in = 600, interval = 5\<rparr>"

definition replies :: "nat \<Rightarrow> 'a \<Rightarrow> 'a response" where
  "replies st j = \<lparr>status = st, body_text = Returns [], body_json = Returns j\<rparr>"

definition sample_env :: env where
  "sample_env =
     \<lparr>api_url_env = None, start = 0, code_fetch = Returns (replies 200 sample_grant),
      code_took = 50, save_result = Returns ()\<rparr>"

definition sample_opts :: DeviceFlowOptions where
  "sample_opts =
     \<lparr>onCodeReceived = (\<lambda>userCode verificationUri. Returns ()),
      onPolling = Some (\<lambda>n. Returns ()), saveCredentials = None\<rparr>"

definition no_fields :: DeviceTokenResponse where
  "no_fields =
     \<lparr>error = None, api_key = None, key_prefix = None, user_id = None, email = None,
      provider = None\<rparr>"

definition pending :: DeviceTokenResponse where
  "pending = no_fields\<lparr>error := Some ''authorization_pending''\<rparr>"


definition denied :: DeviceTokenResponse where
  "denied = no_fields\<lparr>error := Some ''access_denied''\<rparr>"

definition granted :: DeviceTokenResponse where
  "granted =
     no_fields\<lparr>api_key := Some ''sk_live_123'', email := Some ''a@b.com'',
       provider := Some ''github''\<rparr>"

definition answering :: "nat \<Rightarrow> DeviceTokenResponse \<Rightarrow> cycle" where
  "answering st tok =
     \<lparr>sleep_took = 5000, token_fetch = Returns (replies st tok), poll_took = 100\<rparr>"

definition unavailable :: "DeviceCodeResponse response" where
  "unavailable =
     \<lparr>status = 503, body_text = Returns ''Service Unavailable'',
      body_json = Throws (Error ''Unexpected token S in JSON at position 0'')\<rparr>"

text \<open>A grant valid for ten seconds only, and the world issuing it.\<close>

definition brief_grant :: DeviceCodeResponse where
  "brief_grant = sample_grant\<lparr>expires_in := 10\<rparr>"

definition brief_env :: env where
  "brief_env = sample_env\<lparr>code_fetch := Returns (replies 200 brief_grant)\<rparr>"



text \<open>A progress display that fails, and a credential store that cannot be written.\<close>

definition failing_display :: DeviceFlowOptions where
  "failing_display = sample_opts\<lparr>onPolling := Some (\<lambda>n. Throws (Error ''spinner failed''))\<rparr>"

definition readonly_env :: env where
  "readonly_env = sample_env\<lparr>save_result := Throws (Error ''EACCES: permission denied'')\<rparr>"

section \<open>Facts about the loop\<close>

subsection \<open>Traces and their projections\<close>

lemma fst_after [simp]: "fst (after evs p) = evs @ fst p"
  by (simp add: after_def)

lemma snd_after [simp]: "snd (after evs p) = snd p"
  by (simp add: after_def)

lemma after_after: "after a (after b p) = after (a @ b) p"
  by (simp add: after_def)

lemma after_Nil [simp]: "after [] p = p"
  by (simp add: after_def)

lemma sleeps_append [simp]: "sleeps (a @ b) = sleeps a @ sleeps b"
  by (induction a rule: sleeps.induct) simp_all

lemma cycle_starts_append [simp]: "cycle_starts (a @ b) = cycle_starts a @ cycle_starts b"
  by (induction a rule: cycle_starts.induct) simp_all

lemma polls_append [simp]: "polls (a @ b) = polls a @ polls b"
  by (induction a rule: polls.induct) simp_all

lemma saves_append [simp]: "saves (a @ b) = saves a @ saves b"
  by (induction a rule: saves.induct) simp_all

lemma sleeps_pinged [simp]: "sleeps (pinged opts t) = []"
  by (simp add: pinged_def split: option.splits)

lemma starts_pinged [simp]: "cycle_starts (pinged opts t) = []"
  by (simp add: pinged_def split: option.splits)

lemma polls_pinged [simp]: "polls (pinged opts t) = []"
  by (simp add: pinged_def split: option.splits)

lemma saves_pinged [simp]: "saves (pinged opts t) = []"
  by (simp add: pinged_def split: option.splits)

subsection \<open>Quiet cycles\<close>

lemma poll_loop_expired:
  "\<not> now < expiresAt \<Longrightarrow>
   poll_loop opts e code expiresAt cs n now ival = ([], Some (Returns expired))"
  by (cases cs) simp_all

lemma interval_after_Cons:
  "interval_after ival (c # cs) = interval_after (interval_after ival [c]) cs"
  by simp

lemma clock_after_Nil [simp]: "clock_after now [] = now"
  by (simp add: clock_after_def)

lemma clock_after_Cons: "clock_after now (c # cs) = clock_after (now + elapsed c) cs"
  by (simp add: clock_after_def)

lemma cycle_body_quiet:
  "quiet opts n c \<Longrightarrow>
   cycle_body opts e code c n now ival =
     (quiet_events opts e code c now ival, Continue (interval_after ival [c]))"
  by (auto simp: quiet_def cycle_body_def pollForToken_def on_token_def on_error_def
        quiet_events_def poll_error_def Let_def
      split: js_result.splits option.splits)

lemma cycle_body_Continue:
  "cycle_body opts e code c n now ival = (evs, Continue i) \<Longrightarrow> quiet opts n c"
  by (auto simp: quiet_def cycle_body_def pollForToken_def on_token_def on_error_def Let_def
      split: js_result.splits option.splits if_splits)

lemma poll_loop_quiet_step:
  "now < expiresAt \<Longrightarrow> quiet opts n c \<Longrightarrow>
   poll_loop opts e code expiresAt (c # cs) n now ival =
     after (quiet_events opts e code c now ival)
       (poll_loop opts e code expiresAt cs (Suc n) (now + elapsed c) (interval_after ival [c]))"
  by (simp add: cycle_body_quiet)

lemma poll_loop_None_Cons:
  "snd (poll_loop opts e code expiresAt (c # cs) n now ival) = None \<longleftrightarrow>
   now < expiresAt \<and> quiet opts n c \<and>
   snd (poll_loop opts e code expiresAt cs (Suc n) (now + elapsed c) (interval_after ival [c])) = None"
proof (cases "now < expiresAt \<and> quiet opts n c")
  case True
  then show ?thesis by (simp add: cycle_body_quiet)
next
  case False
  then show ?thesis
    by (auto split: prod.splits action.splits dest: cycle_body_Continue)
qed

lemma poll_loop_append:
  "snd (poll_loop opts e code expiresAt pre n now ival) = None \<Longrightarrow>
   poll_loop opts e code expiresAt (pre @ cs) n now ival =
     after (fst (poll_loop opts e code expiresAt pre n now ival))
       (poll_loop opts e code expiresAt cs (n + length pre) (clock_after now pre)
          (interval_after ival pre))"
proof (induction pre arbitrary: n now ival)
  case Nil
  then show ?case by (simp split: if_splits)
next
  case (Cons c pre)
  from Cons.prems have live: "now < expiresAt" and q: "quiet opts n c"
    and rest: "snd (poll_loop opts e code expiresAt pre (Suc n) (now + elapsed c)
                  (interval_after ival [c])) = None"
    by (simp_all only: poll_loop_None_Cons)
  show ?case
    using Cons.IH [OF rest] live q
    by (simp add: poll_loop_quiet_step after_after clock_after_Cons
          interval_after_Cons [of ival c pre] del: poll_loop.simps)
qed

lemma elapsed_nonneg [simp]: "0 \<le> elapsed c"
  by (simp add: elapsed_def)

lemma clock_after_mono: "now \<le> clock_after now cs"
proof (induction cs arbitrary: now)
  case Nil
  then show ?case by simp
next
  case (Cons c cs)
  have "now \<le> now + elapsed c" by simp
  also have "\<dots> \<le> clock_after (now + elapsed c) cs" by (rule Cons.IH)
  finally show ?case by (simp add: clock_after_Cons)
qed

lemma poll_loop_None_iff:
  "snd (poll_loop opts e code expiresAt pre n now ival) = None \<longleftrightarrow>
   (\<forall>j < length pre. quiet opts (n + j) (pre ! j)) \<and> clock_after now pre < expiresAt"
proof (induction pre arbitrary: n now ival)
  case Nil
  then show ?case by simp
next
  case (Cons c pre)
  have "now \<le> now + elapsed c" by simp
  also have "\<dots> \<le> clock_after (now + elapsed c) pre" by (rule clock_after_mono)
  finally have mono: "clock_after (now + elapsed c) pre < expiresAt \<Longrightarrow> now < expiresAt"
    by simp
  have all: "(\<forall>j < Suc (length pre). quiet opts (n + j) ((c # pre) ! j)) \<longleftrightarrow>
             quiet opts n c \<and> (\<forall>j < length pre. quiet opts (Suc n + j) (pre ! j))"
    by (auto simp: less_Suc_eq_0_disj)
  show ?case
    unfolding poll_loop_None_Cons Cons.IH
    using mono all by (auto simp: clock_after_Cons)
qed

lemma poll_loop_None_counts:
  "snd (poll_loop opts e code expiresAt pre n now ival) = None \<Longrightarrow>
   length (polls (fst (poll_loop opts e code expiresAt pre n now ival))) = length pre \<and>
   length (sleeps (fst (poll_loop opts e code expiresAt pre n now ival))) = length pre \<and>
   saves (fst (poll_loop opts e code expiresAt pre n now ival)) = []"
proof (induction pre arbitrary: n now ival)
  case Nil
  then show ?case by (simp split: if_splits)
next
  case (Cons c pre)
  from Cons.prems have live: "now < expiresAt" and q: "quiet opts n c"
    and rest: "snd (poll_loop opts e code expiresAt pre (Suc n) (now + elapsed c)
                  (interval_after ival [c])) = None"
    by (simp_all only: poll_loop_None_Cons)
  show ?case
    using Cons.IH [OF rest] live q
    by (simp add: poll_loop_quiet_step quiet_events_def del: poll_loop.simps)
qed

subsection \<open>From the loop to the flow\<close>

lemma try_block_polling:
  assumes "snd (requestDeviceCode e) = Returns code"
    and "onCodeReceived opts (user_code code) (verification_uri code) = Returns ()"
  shows "try_block opts e cs =
           after (prologue e code)
             (poll_loop opts e code (deadline e code) cs 0 (received_at e) (interval code))"
  using assms
  by (simp add: try_block_def prologue_def deadline_def received_at_def Let_def
        requestDeviceCode_def split: prod.splits)

lemma executeDeviceFlow_polling:
  assumes "snd (requestDeviceCode e) = Returns code"
    and "onCodeReceived opts (user_code code) (verification_uri code) = Returns ()"
  shows "fst (executeDeviceFlow opts e cs) =
           prologue e code @
           fst (poll_loop opts e code (deadline e code) cs 0 (received_at e) (interval code))"
    and "snd (executeDeviceFlow opts e cs) =
           map_option catch_clause
             (snd (poll_loop opts e code (deadline e code) cs 0 (received_at e) (interval code)))"
  by (simp_all add: executeDeviceFlow_def try_block_polling [OF assms] after_def)

lemma executeDeviceFlow_request_fails:
  assumes "snd (requestDeviceCode e) = Throws x"
  shows "executeDeviceFlow opts e cs =
           ([(start e, CodeRequest (getCloudApiUrl e @ DEVICE_CODE_ENDPOINT))],
            Some (failure (message x)))"
  using assms
  by (simp add: executeDeviceFlow_def try_block_def requestDeviceCode_def catch_clause_def
      split: prod.splits)

lemma executeDeviceFlow_callback_fails:
  assumes "snd (requestDeviceCode e) = Returns code"
    and "onCodeReceived opts (user_code code) (verification_uri code) = Throws x"
  shows "executeDeviceFlow opts e cs = (prologue e code, Some (failure (message x)))"
  using assms
  by (simp add: executeDeviceFlow_def try_block_def requestDeviceCode_def catch_clause_def
        prologue_def received_at_def Let_def
      split: prod.splits)

lemma executeDeviceFlow_None:
  assumes "snd (executeDeviceFlow opts e cs) = None"
  obtains code where "snd (requestDeviceCode e) = Returns code"
    and "onCodeReceived opts (user_code code) (verification_uri code) = Returns ()"
    and "snd (poll_loop opts e code (deadline e code) cs 0 (received_at e) (interval code)) = None"
proof (cases "snd (requestDeviceCode e)")
  case (Throws x)
  with assms show ?thesis by (simp add: executeDeviceFlow_request_fails)
next
  case (Returns code)
  show ?thesis
  proof (cases "onCodeReceived opts (user_code code) (verification_uri code)")
    case (Throws x)
    with Returns assms show ?thesis by (simp add: executeDeviceFlow_callback_fails)
  next
    case cb: (Returns u)
    then have cb': "onCodeReceived opts (user_code code) (verification_uri code) = Returns ()"
      by simp
    from assms have "snd (poll_loop opts e code (deadline e code) cs 0 (received_at e)
                       (interval code)) = None"
      by (simp add: executeDeviceFlow_polling [OF Returns cb'])
    with Returns cb' that show ?thesis by blast
  qed
qed

subsection \<open>The ways a cycle ends the flow\<close>

lemma poll_loop_notify_throws:
  "now < expiresAt \<Longrightarrow> notified opts n = Throws x \<Longrightarrow>
   poll_loop opts e code expiresAt (c # cs) n now ival =
     ((now, Sleep ival) # pinged opts (now + int (sleep_took c)), Some (Throws x))"
  by (simp add: cycle_body_def Let_def)

lemma poll_loop_poll_throws:
  "now < expiresAt \<Longrightarrow> notified opts n = Returns () \<Longrightarrow> polled c = Throws x \<Longrightarrow>
   poll_loop opts e code expiresAt (c # cs) n now ival =
     (quiet_events opts e code c now ival, Some (Throws x))"
  by (simp add: cycle_body_def Let_def pollForToken_def quiet_events_def)

lemma poll_loop_terminal_code:
  assumes "now < expiresAt" and "notified opts n = Returns ()"
    and "poll_error c = Some code"
    and "code \<noteq> ''authorization_pending''" and "code \<noteq> ''slow_down''"
  shows "poll_loop opts e code' expiresAt (c # cs) n now ival =
           (quiet_events opts e code' c now ival, Some (Returns (terminal_result code)))"
  using assms
  by (auto simp: cycle_body_def Let_def pollForToken_def quiet_events_def poll_error_def
        on_token_def on_error_def terminal_result_def
      split: js_result.splits)

lemma poll_loop_authorized:
  assumes "now < expiresAt" and "notified opts n = Returns ()"
    and "polled c = Returns tok"
    and "populated (error tok) = None" and "populated (api_key tok) = Some k"
  shows "poll_loop opts e code expiresAt (c # cs) n now ival =
           (if shouldSave opts then
              (quiet_events opts e code c now ival @
                 [(now + elapsed c, SaveCredentials
                     \<lparr>cred_apiKey = k, cred_email = email tok, cred_provider = provider tok,
                      createdAt = now + elapsed c\<rparr>)],
               Some (case save_result e of
                       Throws x \<Rightarrow> Throws x
                     | Returns u \<Rightarrow> Returns (authorized k tok)))
            else (quiet_events opts e code c now ival, Some (Returns (authorized k tok))))"
  using assms
  by (auto simp: cycle_body_def Let_def pollForToken_def quiet_events_def
        on_token_def elapsed_def
      split: js_result.splits)

lemma polls_quiet_events [simp]:
  "polls (quiet_events opts e code c now ival) = [now + int (sleep_took c)]"
  by (simp add: quiet_events_def)

lemma sleeps_quiet_events [simp]: "sleeps (quiet_events opts e code c now ival) = [ival]"
  by (simp add: quiet_events_def)

lemma starts_quiet_events [simp]: "cycle_starts (quiet_events opts e code c now ival) = [now]"
  by (simp add: quiet_events_def)

lemma saves_quiet_events [simp]: "saves (quiet_events opts e code c now ival) = []"
  by (simp add: quiet_events_def)

lemma executeDeviceFlow_append:
  assumes "snd (executeDeviceFlow opts e pre) = None"
    and "snd (requestDeviceCode e) = Returns code"
  shows "clock_after (received_at e) pre < deadline e code"
    and "fst (executeDeviceFlow opts e (pre @ cs)) =
           fst (executeDeviceFlow opts e pre) @
           fst (poll_loop opts e code (deadline e code) cs (length pre)
                  (clock_after (received_at e) pre) (interval_after (interval code) pre))"
    and "snd (executeDeviceFlow opts e (pre @ cs)) =
           map_option catch_clause
             (snd (poll_loop opts e code (deadline e code) cs (length pre)
                  (clock_after (received_at e) pre) (interval_after (interval code) pre)))"
proof -
  from assms(1) obtain code' where req: "snd (requestDeviceCode e) = Returns code'"
    and cb': "onCodeReceived opts (user_code code') (verification_uri code') = Returns ()"
    and still': "snd (poll_loop opts e code' (deadline e code') pre 0 (received_at e)
                  (interval code')) = None"
    by (rule executeDeviceFlow_None)
  from req assms(2) have "code' = code" by simp
  with cb' still' have
    cb: "onCodeReceived opts (user_code code) (verification_uri code) = Returns ()"
    and still: "snd (poll_loop opts e code (deadline e code) pre 0 (received_at e)
                  (interval code)) = None"
    by simp_all
  from still show "clock_after (received_at e) pre < deadline e code"
    by (simp add: poll_loop_None_iff)
  show "fst (executeDeviceFlow opts e (pre @ cs)) =
           fst (executeDeviceFlow opts e pre) @
           fst (poll_loop opts e code (deadline e code) cs (length pre)
                  (clock_after (received_at e) pre) (interval_after (interval code) pre))"
    by (simp add: executeDeviceFlow_polling [OF assms(2) cb] poll_loop_append [OF still])
  show "snd (executeDeviceFlow opts e (pre @ cs)) =
           map_option catch_clause
             (snd (poll_loop opts e code (deadline e code) cs (length pre)
                  (clock_after (received_at e) pre) (interval_after (interval code) pre)))"
    by (simp add: executeDeviceFlow_polling [OF assms(2) cb] poll_loop_append [OF still])
qed

lemma polls_prologue [simp]: "polls (prologue e code) = []"
  by (simp add: prologue_def)

lemma sleeps_prologue [simp]: "sleeps (prologue e code) = []"
  by (simp add: prologue_def)

lemma starts_prologue [simp]: "cycle_starts (prologue e code) = []"
  by (simp add: prologue_def)

lemma saves_prologue [simp]: "saves (prologue e code) = []"
  by (simp add: prologue_def)

lemma executeDeviceFlow_None_counts:
  assumes "snd (executeDeviceFlow opts e pre) = None"
  shows "length (polls (fst (executeDeviceFlow opts e pre))) = length pre"
    and "length (sleeps (fst (executeDeviceFlow opts e pre))) = length pre"
    and "saves (fst (executeDeviceFlow opts e pre)) = []"
proof -
  from assms obtain code where req: "snd (requestDeviceCode e) = Returns code"
    and cb: "onCodeReceived opts (user_code code) (verification_uri code) = Returns ()"
    and still: "snd (poll_loop opts e code (deadline e code) pre 0 (received_at e)
                  (interval code)) = None"
    by (rule executeDeviceFlow_None)
  from poll_loop_None_counts [OF still]
  show "length (polls (fst (executeDeviceFlow opts e pre))) = length pre"
    and "length (sleeps (fst (executeDeviceFlow opts e pre))) = length pre"
    and "saves (fst (executeDeviceFlow opts e pre)) = []"
    by (simp_all add: executeDeviceFlow_polling [OF req cb])
qed

lemma pending_quiet:
  "notified opts n = Returns () \<Longrightarrow> poll_error c = Some ''authorization_pending'' \<Longrightarrow>
   quiet opts n c"
  by (auto simp: quiet_def poll_error_def split: js_result.splits)

subsection \<open>The intervals slept for\<close>

lemma cycle_body_begins:
  "\<exists>tr. fst (cycle_body opts e code c n now ival) = (now, Sleep ival) # tr \<and>
        sleeps tr = [] \<and> cycle_starts tr = []"
  by (auto simp: cycle_body_def Let_def pollForToken_def on_token_def
      split: js_result.splits option.splits prod.splits)

lemma sleeps_cycle_body [simp]: "sleeps (fst (cycle_body opts e code c n now ival)) = [ival]"
  using cycle_body_begins [of opts e code c n now ival] by auto

lemma starts_cycle_body [simp]:
  "cycle_starts (fst (cycle_body opts e code c n now ival)) = [now]"
  using cycle_body_begins [of opts e code c n now ival] by auto

lemma poll_loop_loud_step:
  "now < expiresAt \<Longrightarrow> \<not> quiet opts n c \<Longrightarrow>
   fst (poll_loop opts e code expiresAt (c # cs) n now ival) =
     fst (cycle_body opts e code c n now ival)"
  by (auto split: prod.splits action.splits dest: cycle_body_Continue)

lemma sleeps_poll_loop_Cons:
  "now < expiresAt \<Longrightarrow>
   sleeps (fst (poll_loop opts e code expiresAt (c # cs) n now ival)) =
     ival # (if quiet opts n c
             then sleeps (fst (poll_loop opts e code expiresAt cs (Suc n) (now + elapsed c)
                                 (interval_after ival [c])))
             else [])"
proof (cases "quiet opts n c")
  case True
  assume "now < expiresAt"
  with True show ?thesis
    by (simp add: poll_loop_quiet_step del: poll_loop.simps)
next
  case False
  assume "now < expiresAt"
  with False show ?thesis
    by (simp add: poll_loop_loud_step del: poll_loop.simps)
qed




lemma interval_after_snoc:
  "interval_after ival (cs @ [c]) =
     (if poll_error c = Some ''slow_down'' then js_add (interval_after ival cs) 5
      else interval_after ival cs)"
  by (induction cs arbitrary: ival) simp_all




lemma bit_length_54:
  "bit_length 9007199254740993 = 54" "bit_length 9007199254740995 = 54"
  "bit_length 9007199254740997 = 54" "bit_length 18014398509481983 = 54"
  by (simp_all add: bit_length.simps)

text \<open>Ties go to the even significand, on both sides of zero; the top of a binade rounds up.\<close>

lemma round_double_examples:
  "round_double 9007199254740992 = 9007199254740992"
  "round_double 9007199254740993 = 9007199254740992"
  "round_double 9007199254740995 = 9007199254740996"
  "round_double 9007199254740997 = 9007199254740996"
  "round_double (- 9007199254740995) = - 9007199254740996"
  "round_double 18014398509481983 = 18014398509481984"
  by (simp_all add: round_double_def Let_def bit_length_54)





lemma unremarkable_quiet:
  "notified opts n = Returns () \<Longrightarrow> polled c = Returns tok \<Longrightarrow>
   populated (error tok) = None \<Longrightarrow> populated (api_key tok) = None \<Longrightarrow>
   quiet opts n c \<and> poll_error c = None"
  by (simp add: quiet_def poll_error_def)

subsection \<open>The shape of a trace\<close>

lemma shown_append [simp]: "shown (a @ b) = shown a @ shown b"
  by (induction a rule: shown.induct) simp_all

lemma shown_pinged [simp]: "shown (pinged opts t) = []"
  by (simp add: pinged_def split: option.splits)

lemma shown_quiet_events [simp]: "shown (quiet_events opts e code c now ival) = []"
  by (simp add: quiet_events_def)

lemma shown_prologue [simp]:
  "shown (prologue e code) = [(user_code code, verification_uri code)]"
  by (simp add: prologue_def)

lemma poll_not_pinged [simp]: "(t, TokenRequest u d) \<notin> set (pinged opts w)"
  by (simp add: pinged_def split: option.splits)

lemma pinged_no_poll [simp]: "pinged opts w \<noteq> ys @ (t, TokenRequest u d) # zs"
proof
  assume "pinged opts w = ys @ (t, TokenRequest u d) # zs"
  then have "(t, TokenRequest u d) \<in> set (pinged opts w)"
    by simp
  then show False by simp
qed

text \<open>The trace of a cycle, by how far the cycle gets.\<close>

lemma cycle_body_trace:
  "fst (cycle_body opts e code c n now ival) =
     (case notified opts n of
        Throws x \<Rightarrow> (now, Sleep ival) # pinged opts (now + int (sleep_took c))
      | Returns u \<Rightarrow>
          quiet_events opts e code c now ival @
          (case polled c of
             Throws x \<Rightarrow> []
           | Returns tok \<Rightarrow> fst (on_token opts e (now + elapsed c) ival tok)))"
  by (auto simp: cycle_body_def Let_def pollForToken_def quiet_events_def elapsed_def
        add.assoc
      split: js_result.splits prod.splits)

lemma on_token_trace:
  "fst (on_token opts e now ival tok) = [] \<or>
   (\<exists>cr. fst (on_token opts e now ival tok) = [(now, SaveCredentials cr)])"
  by (simp add: on_token_def split: option.splits)

lemma cycle_body_tail:
  obtains "fst (cycle_body opts e code c n now ival) =
             (now, Sleep ival) # pinged opts (now + int (sleep_took c))"
  | "fst (cycle_body opts e code c n now ival) = quiet_events opts e code c now ival"
  | cr where "fst (cycle_body opts e code c n now ival) =
             quiet_events opts e code c now ival @ [(now + elapsed c, SaveCredentials cr)]"
proof (cases "notified opts n")
  case (Throws x)
  then show ?thesis using that(1) by (simp add: cycle_body_trace)
next
  case (Returns u)
  show ?thesis
  proof (cases "polled c")
    case (Throws x)
    with Returns show ?thesis using that(2) by (simp add: cycle_body_trace)
  next
    case tok: (Returns tok)
    from on_token_trace [of opts e "now + elapsed c" ival tok] Returns tok
    show ?thesis using that(2) that(3) by (auto simp: cycle_body_trace)
  qed
qed

lemma shown_cycle_body [simp]: "shown (fst (cycle_body opts e code c n now ival)) = []"
  by (rule cycle_body_tail [of opts e code c n now ival]) simp_all







lemma poll_loop_starts:
  "\<forall>t \<in> set (cycle_starts (fst (poll_loop opts e code expiresAt cs n now ival))).
     t < expiresAt"
proof (induction cs arbitrary: n now ival)
  case Nil
  then show ?case by simp
next
  case (Cons c cs)
  show ?case
  proof (cases "now < expiresAt")
    case False
    then show ?thesis by (simp add: poll_loop_expired del: poll_loop.simps)
  next
    case True
    show ?thesis
    proof (cases "quiet opts n c")
      case q: True
      with True Cons.IH show ?thesis
        by (simp add: poll_loop_quiet_step del: poll_loop.simps)
    next
      case False
      with True show ?thesis
        by (simp add: poll_loop_loud_step del: poll_loop.simps)
    qed
  qed
qed

lemma executeDeviceFlow_starts:
  assumes "snd (requestDeviceCode e) = Returns code"
  shows "\<forall>t \<in> set (cycle_starts (fst (executeDeviceFlow opts e cs))). t < deadline e code"
proof (cases "onCodeReceived opts (user_code code) (verification_uri code)")
  case (Throws x)
  then show ?thesis
    by (simp add: executeDeviceFlow_callback_fails [OF assms])
next
  case (Returns u)
  then have "onCodeReceived opts (user_code code) (verification_uri code) = Returns ()"
    by simp
  then show ?thesis
    using poll_loop_starts [of opts e code "deadline e code" cs 0 "received_at e"
        "interval code"]
    by (simp add: executeDeviceFlow_polling [OF assms])
qed

subsection \<open>Notifications that return\<close>

lemma cycle_body_same_decisions:
  assumes "saveCredentials o1 = saveCredentials o2"
    and "notified o1 n = Returns ()" and "notified o2 n = Returns ()"
  shows "snd (cycle_body o1 e code c n now ival) = snd (cycle_body o2 e code c n now ival)"
    and "filter (\<lambda>ev. snd ev \<noteq> Polling) (fst (cycle_body o1 e code c n now ival)) =
         filter (\<lambda>ev. snd ev \<noteq> Polling) (fst (cycle_body o2 e code c n now ival))"
  using assms
  by (auto simp: cycle_body_def Let_def pollForToken_def on_token_def shouldSave_def
        pinged_def
      split: js_result.splits option.splits prod.splits)

lemma poll_loop_same_decisions:
  assumes "saveCredentials o1 = saveCredentials o2"
    and "\<forall>n. notified o1 n = Returns ()" and "\<forall>n. notified o2 n = Returns ()"
  shows "snd (poll_loop o1 e code expiresAt cs n now ival) =
         snd (poll_loop o2 e code expiresAt cs n now ival) \<and>
         filter (\<lambda>ev. snd ev \<noteq> Polling) (fst (poll_loop o1 e code expiresAt cs n now ival)) =
         filter (\<lambda>ev. snd ev \<noteq> Polling) (fst (poll_loop o2 e code expiresAt cs n now ival))"
proof (induction cs arbitrary: n now ival)
  case Nil
  then show ?case by simp
next
  case (Cons c cs)
  from assms have r1: "notified o1 n = Returns ()" and r2: "notified o2 n = Returns ()"
    by simp_all
  note same = cycle_body_same_decisions [OF assms(1) r1 r2, of e code c now ival]
  obtain evs1 a1 where b1: "cycle_body o1 e code c n now ival = (evs1, a1)"
    by (cases "cycle_body o1 e code c n now ival")
  obtain evs2 a2 where b2: "cycle_body o2 e code c n now ival = (evs2, a2)"
    by (cases "cycle_body o2 e code c n now ival")
  from same b1 b2 have a: "a2 = a1"
    and evs: "filter (\<lambda>ev. snd ev \<noteq> Polling) evs1 = filter (\<lambda>ev. snd ev \<noteq> Polling) evs2"
    by simp_all
  show ?case
    using Cons.IH b1 b2 a evs
    by (cases a1) simp_all
qed

subsection \<open>Results and the credential store\<close>

lemma success_failure [simp]: "\<not> success (failure m)"
  by (simp add: failure_def)

lemma success_expired [simp]: "\<not> success expired"
  by (simp add: expired_def)

lemma on_error_result:
  "on_error code ival = Return r \<Longrightarrow> \<exists>m. r = failure m"
  by (auto simp: on_error_def split: if_splits)

lemma populated_Some: "populated x = Some k \<Longrightarrow> k \<noteq> [] \<and> x = Some k"
  by (cases x) (auto split: if_splits)

lemma on_token_result:
  assumes "snd (on_token opts e now ival tok) = Return r"
  shows "(\<exists>k tok'. k \<noteq> [] \<and> r = authorized k tok') \<or> (\<exists>m. r = failure m)"
proof (cases "populated (error tok)")
  case (Some code)
  with assms show ?thesis
    by (auto simp: on_token_def dest: on_error_result)
next
  case None
  show ?thesis
  proof (cases "populated (api_key tok)")
    case no_key: None
    with None assms show ?thesis by (simp add: on_token_def)
  next
    case (Some k)
    then have "k \<noteq> []" by (simp add: populated_Some)
    moreover from None Some assms have "r = authorized k tok"
      by (simp add: on_token_def split: if_splits js_result.splits)
    ultimately show ?thesis by blast
  qed
qed

lemma cycle_body_result:
  assumes "snd (cycle_body opts e code c n now ival) = Return r"
  shows "(\<exists>k tok. k \<noteq> [] \<and> r = authorized k tok) \<or> (\<exists>m. r = failure m)"
proof (cases "notified opts n")
  case (Throws x)
  with assms show ?thesis by (simp add: cycle_body_def Let_def)
next
  case ping: (Returns u)
  show ?thesis
  proof (cases "polled c")
    case (Throws x)
    with ping assms show ?thesis by (simp add: cycle_body_def Let_def pollForToken_def)
  next
    case (Returns tok)
    with ping assms
    have "snd (on_token opts e (now + int (sleep_took c) + int (poll_took c)) ival tok) =
            Return r"
      by (simp add: cycle_body_def Let_def pollForToken_def split: prod.splits)
    then show ?thesis by (rule on_token_result)
  qed
qed

lemma cycle_body_saves:
  "(saves (fst (cycle_body opts e code c n now ival)) = [] \<and>
    (\<forall>r. snd (cycle_body opts e code c n now ival) = Return r \<longrightarrow> success r \<longrightarrow>
       \<not> shouldSave opts)) \<or>
   (\<exists>k tok.
      grants c k tok \<and>
      fst (cycle_body opts e code c n now ival) =
        quiet_events opts e code c now ival @
        [(now + elapsed c, SaveCredentials
            \<lparr>cred_apiKey = k, cred_email = email tok, cred_provider = provider tok,
             createdAt = now + elapsed c\<rparr>)] \<and>
      shouldSave opts \<and>
      (save_result e = Returns () \<and>
         snd (cycle_body opts e code c n now ival) = Return (authorized k tok) \<or>
       (\<exists>x. save_result e = Throws x \<and>
         snd (cycle_body opts e code c n now ival) = Raise x)))"
proof (cases "notified opts n")
  case (Throws x)
  then show ?thesis by (simp add: cycle_body_def Let_def)
next
  case ping: (Returns u)
  show ?thesis
  proof (cases "polled c")
    case (Throws x)
    with ping show ?thesis by (simp add: cycle_body_def Let_def pollForToken_def)
  next
    case (Returns tok)
    show ?thesis
    proof (cases "populated (error tok)")
      case (Some code)
      with ping Returns show ?thesis
        by (auto simp: cycle_body_def Let_def pollForToken_def on_token_def
            dest: on_error_result)
    next
      case None
      show ?thesis
      proof (cases "populated (api_key tok)")
        case no_key: None
        with ping Returns None show ?thesis
          by (simp add: cycle_body_def Let_def pollForToken_def on_token_def)
      next
        case (Some k)
        show ?thesis
        proof (cases "shouldSave opts")
          case False
          with ping Returns None Some show ?thesis
            by (simp add: cycle_body_def Let_def pollForToken_def on_token_def)
        next
          case True
          with ping Returns None Some show ?thesis
            by (cases "save_result e")
              (auto simp: cycle_body_def Let_def pollForToken_def on_token_def
                quiet_events_def elapsed_def grants_def)
        qed
      qed
    qed
  qed
qed

lemma poll_loop_Cons_cases:
  assumes "now < expiresAt"
  obtains (quiet) "quiet opts n c"
      and "poll_loop opts e code expiresAt (c # cs) n now ival =
             after (quiet_events opts e code c now ival)
               (poll_loop opts e code expiresAt cs (Suc n) (now + elapsed c)
                  (interval_after ival [c]))"
  | (return) r where "snd (cycle_body opts e code c n now ival) = Return r"
      and "poll_loop opts e code expiresAt (c # cs) n now ival =
             (fst (cycle_body opts e code c n now ival), Some (Returns r))"
  | (raise) x where "snd (cycle_body opts e code c n now ival) = Raise x"
      and "poll_loop opts e code expiresAt (c # cs) n now ival =
             (fst (cycle_body opts e code c n now ival), Some (Throws x))"
proof -
  obtain evs a where b: "cycle_body opts e code c n now ival = (evs, a)"
    by (cases "cycle_body opts e code c n now ival")
  show ?thesis
  proof (cases a)
    case (Continue i)
    with b have q: "quiet opts n c"
      by (auto dest: cycle_body_Continue)
    with assms show ?thesis
      by (intro quiet poll_loop_quiet_step)
  next
    case (Return r)
    with b assms show ?thesis
      by (intro return [of r]) simp_all
  next
    case (Raise x)
    with b assms show ?thesis
      by (intro raise [of x]) simp_all
  qed
qed

lemma poll_loop_result:
  "snd (poll_loop opts e code expiresAt cs n now ival) = Some (Returns r) \<Longrightarrow>
   (\<exists>k tok. k \<noteq> [] \<and> r = authorized k tok) \<or> (\<exists>m. r = failure m)"
proof (induction cs arbitrary: n now ival)
  case Nil
  then show ?case by (auto simp: expired_def split: if_splits)
next
  case (Cons c cs)
  show ?case
  proof (cases "now < expiresAt")
    case False
    with Cons.prems show ?thesis
      by (auto simp: poll_loop_expired expired_def simp del: poll_loop.simps)
  next
    case True
    then show ?thesis
    proof (cases rule: poll_loop_Cons_cases [of now expiresAt opts n c e code cs ival])
      case quiet
      with Cons.prems Cons.IH show ?thesis
        by (simp del: poll_loop.simps)
    next
      case (return r')
      with Cons.prems have "r = r'" by (simp del: poll_loop.simps)
      with cycle_body_result [OF return(1)] show ?thesis by simp
    next
      case (raise x)
      with Cons.prems show ?thesis by (simp del: poll_loop.simps)
    qed
  qed
qed

lemma saves_poll_loop:
  "(saves (fst (poll_loop opts e code expiresAt cs n now ival)) = [] \<and>
    (\<forall>r. snd (poll_loop opts e code expiresAt cs n now ival) = Some (Returns r) \<longrightarrow>
       success r \<longrightarrow> \<not> shouldSave opts)) \<or>
   (\<exists>tr t k tok.
      (\<exists>c. c \<in> set cs \<and> grants c k tok) \<and>
      fst (poll_loop opts e code expiresAt cs n now ival) =
        tr @ [(t, SaveCredentials
                \<lparr>cred_apiKey = k, cred_email = email tok, cred_provider = provider tok,
                 createdAt = t\<rparr>)] \<and>
      saves tr = [] \<and> shouldSave opts \<and>
      (save_result e = Returns () \<and>
         snd (poll_loop opts e code expiresAt cs n now ival) =
           Some (Returns (authorized k tok)) \<or>
       (\<exists>x. save_result e = Throws x \<and>
         snd (poll_loop opts e code expiresAt cs n now ival) = Some (Throws x))))"
proof (induction cs arbitrary: n now ival)
  case Nil
  then show ?case by simp
next
  case (Cons c cs)
  show ?case
  proof (cases "now < expiresAt")
    case False
    then show ?thesis
      by (simp add: poll_loop_expired del: poll_loop.simps)
  next
    case True
    then show ?thesis
    proof (cases rule: poll_loop_Cons_cases [of now expiresAt opts n c e code cs ival])
      case quiet
      let ?next = "poll_loop opts e code expiresAt cs (Suc n) (now + elapsed c)
                     (interval_after ival [c])"
      from Cons.IH [of "Suc n" "now + elapsed c" "interval_after ival [c]"]
      consider (none) "saves (fst ?next) = []"
          "\<forall>r. snd ?next = Some (Returns r) \<longrightarrow> success r \<longrightarrow> \<not> shouldSave opts"
        | (saved) tr t k tok where
          "\<exists>c. c \<in> set cs \<and> grants c k tok"
          "fst ?next = tr @ [(t, SaveCredentials
                  \<lparr>cred_apiKey = k, cred_email = email tok, cred_provider = provider tok,
                   createdAt = t\<rparr>)]"
          "saves tr = []" "shouldSave opts"
          "save_result e = Returns () \<and> snd ?next = Some (Returns (authorized k tok)) \<or>
           (\<exists>x. save_result e = Throws x \<and> snd ?next = Some (Throws x))"
        by blast
      then show ?thesis
      proof cases
        case none
        with quiet(2) show ?thesis
          by (simp del: poll_loop.simps)
      next
        case saved
        from saved(1) have "\<exists>c'. c' \<in> set (c # cs) \<and> grants c' k tok"
          by auto
        moreover from saved quiet(2) have
          "fst (poll_loop opts e code expiresAt (c # cs) n now ival) =
             (quiet_events opts e code c now ival @ tr) @
             [(t, SaveCredentials
                  \<lparr>cred_apiKey = k, cred_email = email tok, cred_provider = provider tok,
                   createdAt = t\<rparr>)]"
          and "saves (quiet_events opts e code c now ival @ tr) = []"
          and "shouldSave opts"
          and "save_result e = Returns () \<and>
                 snd (poll_loop opts e code expiresAt (c # cs) n now ival) =
                   Some (Returns (authorized k tok)) \<or>
               (\<exists>x. save_result e = Throws x \<and>
                 snd (poll_loop opts e code expiresAt (c # cs) n now ival) = Some (Throws x))"
          by (simp_all del: poll_loop.simps)
        ultimately show ?thesis by blast
      qed
    next
      case (return r)
      let ?body = "cycle_body opts e code c n now ival"
      from cycle_body_saves [of opts e code c n now ival]
      consider (none) "saves (fst ?body) = []"
          "\<forall>r. snd ?body = Return r \<longrightarrow> success r \<longrightarrow> \<not> shouldSave opts"
        | (saved) k tok where
          "grants c k tok"
          "fst ?body = quiet_events opts e code c now ival @
                  [(now + elapsed c, SaveCredentials
                     \<lparr>cred_apiKey = k, cred_email = email tok, cred_provider = provider tok,
                      createdAt = now + elapsed c\<rparr>)]"
          "shouldSave opts"
          "save_result e = Returns () \<and> snd ?body = Return (authorized k tok) \<or>
           (\<exists>x. save_result e = Throws x \<and> snd ?body = Raise x)"
        by blast
      then show ?thesis
      proof cases
        case none
        with return show ?thesis
          by (simp del: poll_loop.simps)
      next
        case saved
        from saved(4) return(1) have ok: "save_result e = Returns ()"
          and r: "r = authorized k tok"
          by auto
        from saved(1) have "\<exists>c'. c' \<in> set (c # cs) \<and> grants c' k tok"
          by auto
        moreover have "saves (quiet_events opts e code c now ival) = []" by simp
        ultimately show ?thesis
          using saved(2) saved(3) ok r return(2)
          by (simp del: poll_loop.simps set_simps) blast
      qed
    next
      case (raise x)
      let ?body = "cycle_body opts e code c n now ival"
      from cycle_body_saves [of opts e code c n now ival]
      consider (none) "saves (fst ?body) = []"
        | (saved) k tok where
          "grants c k tok"
          "fst ?body = quiet_events opts e code c now ival @
                  [(now + elapsed c, SaveCredentials
                     \<lparr>cred_apiKey = k, cred_email = email tok, cred_provider = provider tok,
                      createdAt = now + elapsed c\<rparr>)]"
          "shouldSave opts"
          "save_result e = Returns () \<and> snd ?body = Return (authorized k tok) \<or>
           (\<exists>x. save_result e = Throws x \<and> snd ?body = Raise x)"
        by blast
      then show ?thesis
      proof cases
        case none
        with raise show ?thesis
          by (simp del: poll_loop.simps)
      next
        case saved
        from saved(4) raise(1) have thrown: "save_result e = Throws x"
          by auto
        from saved(1) have "\<exists>c'. c' \<in> set (c # cs) \<and> grants c' k tok"
          by auto
        moreover have "saves (quiet_events opts e code c now ival) = []" by simp
        ultimately show ?thesis
          using saved(2) saved(3) thrown raise(2)
          by (simp del: poll_loop.simps set_simps) blast
      qed
    qed
  qed
qed

lemma executeDeviceFlow_saves:
  "(saves (fst (executeDeviceFlow opts e cs)) = [] \<and>
    (\<forall>r. snd (executeDeviceFlow opts e cs) = Some r \<longrightarrow> success r \<longrightarrow> \<not> shouldSave opts)) \<or>
   (\<exists>tr t k tok.
      (\<exists>c. c \<in> set cs \<and> grants c k tok) \<and>
      fst (executeDeviceFlow opts e cs) =
        tr @ [(t, SaveCredentials
                \<lparr>cred_apiKey = k, cred_email = email tok, cred_provider = provider tok,
                 createdAt = t\<rparr>)] \<and>
      saves tr = [] \<and> shouldSave opts \<and>
      (save_result e = Returns () \<and>
         snd (executeDeviceFlow opts e cs) = Some (authorized k tok) \<or>
       (\<exists>x. save_result e = Throws x \<and>
         snd (executeDeviceFlow opts e cs) = Some (failure (message x)))))"
proof (cases "snd (requestDeviceCode e)")
  case (Throws x)
  then show ?thesis
    by (simp add: executeDeviceFlow_request_fails)
next
  case (Returns code)
  show ?thesis
  proof (cases "onCodeReceived opts (user_code code) (verification_uri code)")
    case (Throws x)
    then show ?thesis
      by (simp add: executeDeviceFlow_callback_fails [OF Returns])
  next
    case cb: (Returns u)
    then have cb: "onCodeReceived opts (user_code code) (verification_uri code) = Returns ()"
      by simp
    let ?loop = "poll_loop opts e code (deadline e code) cs 0 (received_at e) (interval code)"
    note flow = executeDeviceFlow_polling [OF Returns cb, of cs]
    from saves_poll_loop [of opts e code "deadline e code" cs 0 "received_at e" "interval code"]
    consider (none) "saves (fst ?loop) = []"
        "\<forall>r. snd ?loop = Some (Returns r) \<longrightarrow> success r \<longrightarrow> \<not> shouldSave opts"
      | (saved) tr t k tok where
        "\<exists>c. c \<in> set cs \<and> grants c k tok"
        "fst ?loop = tr @ [(t, SaveCredentials
                \<lparr>cred_apiKey = k, cred_email = email tok, cred_provider = provider tok,
                 createdAt = t\<rparr>)]"
        "saves tr = []" "shouldSave opts"
        "save_result e = Returns () \<and> snd ?loop = Some (Returns (authorized k tok)) \<or>
         (\<exists>x. save_result e = Throws x \<and> snd ?loop = Some (Throws x))"
      by blast
    then show ?thesis
    proof cases
      case none
      have "\<not> shouldSave opts"
        if "snd (executeDeviceFlow opts e cs) = Some r" and "success r" for r
      proof -
        from that(1) obtain res where res: "snd ?loop = Some res" and r: "r = catch_clause res"
          by (auto simp: flow)
        show ?thesis
        proof (cases res)
          case (Returns r')
          with res r that(2) none(2) show ?thesis
            by (simp add: catch_clause_def)
        next
          case (Throws x)
          with r that(2) show ?thesis
            by (simp add: catch_clause_def)
        qed
      qed
      with none(1) show ?thesis
        by (auto simp: flow)
    next
      case saved
      from saved(2) have
        "fst (executeDeviceFlow opts e cs) =
           (prologue e code @ tr) @
           [(t, SaveCredentials
                \<lparr>cred_apiKey = k, cred_email = email tok, cred_provider = provider tok,
                 createdAt = t\<rparr>)]"
        by (simp add: flow)
      moreover from saved(3) have "saves (prologue e code @ tr) = []"
        by simp
      moreover from saved(5) have
        "save_result e = Returns () \<and>
           snd (executeDeviceFlow opts e cs) = Some (authorized k tok) \<or>
         (\<exists>x. save_result e = Throws x \<and>
           snd (executeDeviceFlow opts e cs) = Some (failure (message x)))"
        by (auto simp: flow catch_clause_def)
      ultimately show ?thesis
        using saved(1) saved(4) by blast
    qed
  qed
qed

lemma executeDeviceFlow_result:
  assumes "snd (executeDeviceFlow opts e cs) = Some r"
  shows "(\<exists>k tok. k \<noteq> [] \<and> r = authorized k tok) \<or> (\<exists>m. r = failure m)"
proof (cases "snd (requestDeviceCode e)")
  case (Throws x)
  with assms show ?thesis
    by (auto simp: executeDeviceFlow_request_fails)
next
  case (Returns code)
  show ?thesis
  proof (cases "onCodeReceived opts (user_code code) (verification_uri code)")
    case (Throws x)
    with assms show ?thesis
      by (auto simp: executeDeviceFlow_callback_fails [OF Returns])
  next
    case cb: (Returns u)
    then have cb: "onCodeReceived opts (user_code code) (verification_uri code) = Returns ()"
      by simp
    from assms obtain res where
      res: "snd (poll_loop opts e code (deadline e code) cs 0 (received_at e)
                   (interval code)) = Some res"
      and r: "r = catch_clause res"
      by (auto simp: executeDeviceFlow_polling [OF Returns cb])
    show ?thesis
    proof (cases res)
      case (Returns r')
      with res r poll_loop_result [of opts e code "deadline e code" cs 0 "received_at e"
          "interval code" r']
      show ?thesis by (simp add: catch_clause_def)
    next
      case (Throws x)
      with r show ?thesis by (auto simp: catch_clause_def)
    qed
  qed
qed

subsection \<open>Exceptions on their way to the catch clause\<close>

lemma poll_loop_terminates:
  "expiresAt \<le> clock_after now cs \<Longrightarrow>
   \<exists>res. snd (poll_loop opts e code expiresAt cs n now ival) = Some res"
proof (induction cs arbitrary: n now ival)
  case Nil
  then show ?case by simp
next
  case (Cons c cs)
  show ?case
  proof (cases "now < expiresAt")
    case False
    then show ?thesis by (simp add: poll_loop_expired del: poll_loop.simps)
  next
    case True
    then show ?thesis
    proof (cases rule: poll_loop_Cons_cases [of now expiresAt opts n c e code cs ival])
      case quiet
      from Cons.prems have "expiresAt \<le> clock_after (now + elapsed c) cs"
        by (simp add: clock_after_Cons)
      then have "\<exists>res. snd (poll_loop opts e code expiresAt cs (Suc n) (now + elapsed c)
                           (interval_after ival [c])) = Some res"
        by (rule Cons.IH)
      with quiet(2) show ?thesis by (simp del: poll_loop.simps)
    next
      case (return r)
      then show ?thesis by (simp del: poll_loop.simps)
    next
      case (raise x)
      then show ?thesis by (simp del: poll_loop.simps)
    qed
  qed
qed

lemma executeDeviceFlow_terminates:
  assumes "\<forall>code. snd (requestDeviceCode e) = Returns code \<longrightarrow>
           deadline e code \<le> clock_after (received_at e) cs"
  shows "\<exists>r. snd (executeDeviceFlow opts e cs) = Some r"
proof (cases "snd (requestDeviceCode e)")
  case (Throws x)
  then show ?thesis
    by (simp add: executeDeviceFlow_request_fails)
next
  case (Returns code)
  show ?thesis
  proof (cases "onCodeReceived opts (user_code code) (verification_uri code)")
    case (Throws x)
    then show ?thesis
      by (simp add: executeDeviceFlow_callback_fails [OF Returns])
  next
    case cb: (Returns u)
    then have cb: "onCodeReceived opts (user_code code) (verification_uri code) = Returns ()"
      by simp
    from assms Returns have "deadline e code \<le> clock_after (received_at e) cs"
      by simp
    from poll_loop_terminates [OF this]
    show ?thesis
      by (simp add: executeDeviceFlow_polling [OF Returns cb])
  qed
qed

lemma flow_notify_throws:
  assumes "snd (executeDeviceFlow opts e pre) = None"
    and "notified opts (length pre) = Throws x"
  shows "snd (executeDeviceFlow opts e (pre @ c # rest)) = Some (failure (message x))"
proof -
  from assms(1) obtain code where req: "snd (requestDeviceCode e) = Returns code"
    by (rule executeDeviceFlow_None)
  note live = executeDeviceFlow_append(1) [OF assms(1) req]
    and res = executeDeviceFlow_append(3) [OF assms(1) req]
  show ?thesis
    by (simp add: res poll_loop_notify_throws [OF live assms(2)] catch_clause_def
          del: poll_loop.simps)
qed

lemma flow_notify_throws_trace:
  assumes "snd (executeDeviceFlow opts e pre) = None"
    and "notified opts (length pre) = Throws x"
  shows "length (polls (fst (executeDeviceFlow opts e (pre @ c # rest)))) = length pre"
proof -
  from assms(1) obtain code where req: "snd (requestDeviceCode e) = Returns code"
    by (rule executeDeviceFlow_None)
  note live = executeDeviceFlow_append(1) [OF assms(1) req]
    and tr = executeDeviceFlow_append(2) [OF assms(1) req]
  show ?thesis
    by (simp add: tr poll_loop_notify_throws [OF live assms(2)]
          executeDeviceFlow_None_counts [OF assms(1)] del: poll_loop.simps)
qed

lemma flow_poll_throws:
  assumes "snd (executeDeviceFlow opts e pre) = None"
    and "notified opts (length pre) = Returns ()"
    and "polled c = Throws x"
  shows "snd (executeDeviceFlow opts e (pre @ c # rest)) = Some (failure (message x))"
proof -
  from assms(1) obtain code where req: "snd (requestDeviceCode e) = Returns code"
    by (rule executeDeviceFlow_None)
  note live = executeDeviceFlow_append(1) [OF assms(1) req]
    and res = executeDeviceFlow_append(3) [OF assms(1) req]
  show ?thesis
    by (simp add: res poll_loop_poll_throws [OF live assms(2) assms(3)] catch_clause_def
          del: poll_loop.simps)
qed

lemma flow_save_throws:
  assumes "snd (executeDeviceFlow opts e pre) = None"
    and "notified opts (length pre) = Returns ()"
    and "polled c = Returns tok"
    and "populated (error tok) = None" and "populated (api_key tok) = Some k"
    and "saveCredentials opts \<noteq> Some False"
    and "save_result e = Throws x"
  shows "snd (executeDeviceFlow opts e (pre @ c # rest)) = Some (failure (message x))"
proof -
  from assms(1) obtain code where req: "snd (requestDeviceCode e) = Returns code"
    by (rule executeDeviceFlow_None)
  note live = executeDeviceFlow_append(1) [OF assms(1) req]
    and res = executeDeviceFlow_append(3) [OF assms(1) req]
  from assms(6) have "shouldSave opts"
    by (auto simp: shouldSave_def split: option.splits)
  with assms(7) show ?thesis
    by (simp add: res poll_loop_authorized [OF live assms(2) assms(3) assms(4) assms(5)]
          catch_clause_def del: poll_loop.simps)
qed

section \<open>The claims\<close>

text \<open>
  C9. When the device-code endpoint answers with a status outside 200..299 and body
  \<open>b\<close>, \<open>requestDeviceCode\<close> throws an error whose message is
  \<open>Failed to request device code: \<close> followed by \<open>b\<close> verbatim; the flow sends that one
  request and nothing else (no retry, no callback, no poll) and returns
  \<open>{success: false, error}\<close> with that message.
\<close>

theorem code_request_failure:
  assumes "code_fetch e = Returns r"
    and "status r < 200 \<or> 299 < status r"
    and "body_text r = Returns b"
  shows "snd (requestDeviceCode e) = Throws (Error (''Failed to request device code: '' @ b)) \<and>
         executeDeviceFlow opts e cs =
           ([(start e, CodeRequest (getCloudApiUrl e @ DEVICE_CODE_ENDPOINT))],
            Some (failure (''Failed to request device code: '' @ b)))"
proof -
  from assms have thrown:
    "snd (requestDeviceCode e) = Throws (Error (''Failed to request device code: '' @ b))"
    by (auto simp: requestDeviceCode_def ok_def)
  from executeDeviceFlow_request_fails [OF thrown] thrown show ?thesis
    by simp
qed

theorem code_request_failure_witness:
  "code_fetch (sample_env\<lparr>code_fetch := Returns unavailable\<rparr>) = Returns unavailable \<and>
   (status unavailable < 200 \<or> 299 < status unavailable) \<and>
   body_text unavailable = Returns ''Service Unavailable'' \<and>
   executeDeviceFlow sample_opts (sample_env\<lparr>code_fetch := Returns unavailable\<rparr>)
       [answering 200 granted] =
     ([(0, CodeRequest ''https://mcp.savecontext.dev/auth/device/code'')],
      Some (failure ''Failed to request device code: Service Unavailable''))"
proof -
  have h1: "code_fetch (sample_env\<lparr>code_fetch := Returns unavailable\<rparr>) = Returns unavailable"
    by simp
  have h2: "status unavailable < 200 \<or> 299 < status unavailable"
    by (simp add: unavailable_def)
  have h3: "body_text unavailable = Returns ''Service Unavailable''"
    by (simp add: unavailable_def)
  from code_request_failure [OF h1 h2 h3, of sample_opts "[answering 200 granted]"] h1 h2 h3
  show ?thesis
    by (simp add: sample_env_def getCloudApiUrl_def CLOUD_API_URL_def DEVICE_CODE_ENDPOINT_def)
qed

text \<open>
  C4. Suppose the flow is still polling after the cycles \<open>pre\<close> (whatever they were and
  however much time is left), the notification of the next cycle returns, and its poll
  delivers a response with a truthy error code other than \<open>authorization_pending\<close> and
  \<open>slow_down\<close>. Then the flow returns at once: \<open>expired_token\<close> gives
  \<open>Device code expired. Please try again.\<close>, \<open>access_denied\<close> gives
  \<open>Authorization denied by user.\<close>, any other code gives \<open>Unknown error: \<close> followed by
  the code, each with \<open>success: false\<close>. That poll is the last one: the trace is the
  same whatever the script holds after the cycle.
\<close>

theorem terminal_error_codes:
  assumes "snd (executeDeviceFlow opts e pre) = None"
    and "notified opts (length pre) = Returns ()"
    and "poll_error c = Some code"
    and "code \<noteq> ''authorization_pending''" and "code \<noteq> ''slow_down''"
  shows "snd (executeDeviceFlow opts e (pre @ c # rest)) =
           Some (if code = ''expired_token'' then
                   failure ''Device code expired. Please try again.''
                 else if code = ''access_denied'' then failure ''Authorization denied by user.''
                 else failure (''Unknown error: '' @ code)) \<and>
         length (polls (fst (executeDeviceFlow opts e (pre @ c # rest)))) = Suc (length pre) \<and>
         fst (executeDeviceFlow opts e (pre @ c # rest)) =
           fst (executeDeviceFlow opts e (pre @ [c]))"
proof -
  from assms(1) obtain code' where req: "snd (requestDeviceCode e) = Returns code'"
    by (rule executeDeviceFlow_None)
  note live = executeDeviceFlow_append(1) [OF assms(1) req]
    and tr = executeDeviceFlow_append(2) [OF assms(1) req]
    and res = executeDeviceFlow_append(3) [OF assms(1) req]
  note step = poll_loop_terminal_code [OF live assms(2) assms(3) assms(4) assms(5)]
  show ?thesis
    by (simp add: tr res step executeDeviceFlow_None_counts [OF assms(1)]
          catch_clause_def terminal_result_def del: poll_loop.simps)
qed

theorem terminal_error_codes_witness:
  "snd (executeDeviceFlow sample_opts sample_env
          ([answering 400 pending] @ answering 400 denied # [answering 200 granted])) =
     Some (failure ''Authorization denied by user.'') \<and>
   length (polls (fst (executeDeviceFlow sample_opts sample_env
          ([answering 400 pending] @ answering 400 denied # [answering 200 granted])))) = 2"
proof -
  have still: "snd (executeDeviceFlow sample_opts sample_env [answering 400 pending]) = None"
    by code_simp
  have ping: "notified sample_opts (length [answering 400 pending]) = Returns ()"
    by code_simp
  have err: "poll_error (answering 400 denied) = Some ''access_denied''"
    by code_simp
  have c1: "''access_denied'' \<noteq> ''authorization_pending''"
    and c2: "''access_denied'' \<noteq> ''slow_down''"
    by simp_all
  note run = terminal_error_codes [OF still ping err c1 c2, of "[answering 200 granted]"]
  from run [THEN conjunct1] run [THEN conjunct2, THEN conjunct1]
  show ?thesis by (simp add: numeral_2_eq_2)
qed

text \<open>
  C2, as stated, fails when the credential store does. With the save-credentials option
  left at its default, the flow saves before it returns; a store that cannot be written
  makes \<open>saveCredentials\<close> throw, and the flow, for a pending response followed by an
  authorized one, both received well before the deadline, returns \<open>success: false\<close>.
\<close>

theorem save_failure_counterexample:
  "poll_error (answering 400 pending) = Some ''authorization_pending'' \<and>
   polled (answering 200 granted) = Returns granted \<and>
   clock_after (received_at readonly_env) [answering 400 pending, answering 200 granted]
     < deadline readonly_env sample_grant \<and>
   snd (executeDeviceFlow sample_opts readonly_env
          [answering 400 pending, answering 200 granted]) =
     Some \<lparr>success = False, apiKey = None, keyPrefix = None, userId = None,
           res_email = None, res_provider = None,
           res_error = Some ''EACCES: permission denied''\<rparr>"
  by code_simp

text \<open>
  C2, amended. Let the device-code request succeed and \<open>onCodeReceived\<close> return. Let the
  polls of the cycles \<open>pre\<close> (zero or more) all be sent and answer
  \<open>authorization_pending\<close>, and the poll of the next cycle be sent and answer with no
  error and a populated \<open>api_key\<close>. Let the responses be received before the deadline;
  what the proof needs of this is only that the last pending response is (with \<open>pre\<close>
  empty: that the code is received before the deadline). Then, if the credential store is
  not to be used or saves without an error, the flow returns \<open>success: true\<close> with
  \<open>apiKey\<close> the key of the final response and \<open>keyPrefix\<close>, \<open>userId\<close>, \<open>email\<close>,
  \<open>provider\<close> exactly as that response has them (absent where it has none), and no
  \<open>error\<close>; and if the store is used and throws, the flow returns \<open>success: false\<close>
  with the store's message.
\<close>

theorem pending_then_authorized:
  assumes "snd (requestDeviceCode e) = Returns code"
    and "onCodeReceived opts (user_code code) (verification_uri code) = Returns ()"
    and "\<forall>n \<le> length pre. notified opts n = Returns ()"
    and "\<forall>p \<in> set pre. poll_error p = Some ''authorization_pending''"
    and "polled c = Returns tok"
    and "populated (error tok) = None"
    and "populated (api_key tok) = Some k"
    and "clock_after (received_at e) pre < deadline e code"
  shows "(saveCredentials opts = Some False \<or> save_result e = Returns () \<longrightarrow>
            snd (executeDeviceFlow opts e (pre @ c # rest)) =
              Some \<lparr>success = True, apiKey = Some k, keyPrefix = key_prefix tok,
                    userId = user_id tok, res_email = email tok,
                    res_provider = provider tok, res_error = None\<rparr>) \<and>
         (saveCredentials opts \<noteq> Some False \<and> save_result e = Throws x \<longrightarrow>
            snd (executeDeviceFlow opts e (pre @ c # rest)) = Some (failure (message x)))"
proof -
  have "\<forall>j < length pre. quiet opts (0 + j) (pre ! j)"
    using assms(3) assms(4) by (auto intro!: pending_quiet)
  with assms(8) have
    "snd (poll_loop opts e code (deadline e code) pre 0 (received_at e) (interval code)) = None"
    by (simp only: poll_loop_None_iff)
  then have still: "snd (executeDeviceFlow opts e pre) = None"
    by (simp add: executeDeviceFlow_polling [OF assms(1) assms(2)])
  from assms(3) have ping: "notified opts (length pre) = Returns ()"
    by simp
  note step = poll_loop_authorized [OF assms(8) ping assms(5) assms(6) assms(7)]
  have flag: "shouldSave opts \<longleftrightarrow> saveCredentials opts \<noteq> Some False"
    by (auto simp: shouldSave_def split: option.splits)
  show ?thesis
    by (auto simp: executeDeviceFlow_append(3) [OF still assms(1)] step catch_clause_def
          authorized_def flag simp del: poll_loop.simps)
qed

theorem pending_then_authorized_witness:
  "snd (executeDeviceFlow sample_opts sample_env
          ([answering 400 pending, answering 400 pending] @ answering 200 granted # [])) =
     Some \<lparr>success = True, apiKey = Some ''sk_live_123'', keyPrefix = None, userId = None,
           res_email = Some ''a@b.com'', res_provider = Some ''github'', res_error = None\<rparr>"
proof -
  have req: "snd (requestDeviceCode sample_env) = Returns sample_grant"
    by code_simp
  have cb: "onCodeReceived sample_opts (user_code sample_grant) (verification_uri sample_grant)
              = Returns ()"
    by (simp add: sample_opts_def)
  have pings: "\<forall>n \<le> length [answering 400 pending, answering 400 pending].
                 notified sample_opts n = Returns ()"
    by (simp add: notified_def sample_opts_def)
  have pend: "\<forall>p \<in> set [answering 400 pending, answering 400 pending].
                poll_error p = Some ''authorization_pending''"
    by code_simp
  have fetched: "polled (answering 200 granted) = Returns granted"
    by code_simp
  have no_error: "populated (error granted) = None"
    by code_simp
  have key: "populated (api_key granted) = Some ''sk_live_123''"
    by code_simp
  have in_time: "clock_after (received_at sample_env)
                   [answering 400 pending, answering 400 pending]
                 < deadline sample_env sample_grant"
    by code_simp
  have saved: "saveCredentials sample_opts = Some False \<or> save_result sample_env = Returns ()"
    by (simp add: sample_env_def)
  note run = pending_then_authorized [OF req cb pings pend fetched no_error key in_time,
      of "[]"]
  from run [THEN conjunct1, THEN mp, OF saved]
  show ?thesis by (simp add: granted_def no_fields_def)
qed




text \<open>
  C10. Suppose the flow is still polling after the cycles \<open>pre\<close>, the notification of the
  next cycle returns, and its poll returns a response with neither a truthy \<open>error\<close> nor a
  populated \<open>api_key\<close>. Then the response ends nothing: with the script ending there the
  flow has no result, unless the deadline has been reached by then, in which case the
  loop's test ends it as expired; with more script, the loop goes on from its test with
  the interval it had, and where the deadline leaves room for a further cycle, that cycle
  waits for the same interval as this one did.
\<close>

theorem empty_response_keeps_polling:
  assumes "snd (executeDeviceFlow opts e pre) = None"
    and "snd (requestDeviceCode e) = Returns code"
    and "notified opts (length pre) = Returns ()"
    and "polled c = Returns tok"
    and "populated (error tok) = None"
    and "populated (api_key tok) = None"
  shows "snd (executeDeviceFlow opts e (pre @ [c])) =
           (if clock_after (received_at e) (pre @ [c]) < deadline e code then None
            else Some expired) \<and>
         executeDeviceFlow opts e (pre @ c # rest) =
           (fst (executeDeviceFlow opts e pre) @
              quiet_events opts e code c (clock_after (received_at e) pre)
                (interval_after (interval code) pre) @
              fst (poll_loop opts e code (deadline e code) rest (Suc (length pre))
                     (clock_after (received_at e) (pre @ [c]))
                     (interval_after (interval code) pre)),
            map_option catch_clause
              (snd (poll_loop opts e code (deadline e code) rest (Suc (length pre))
                     (clock_after (received_at e) (pre @ [c]))
                     (interval_after (interval code) pre)))) \<and>
         (\<forall>next later. clock_after (received_at e) (pre @ [c]) < deadline e code \<longrightarrow>
            sleeps (fst (executeDeviceFlow opts e (pre @ c # next # later))) ! Suc (length pre) =
            sleeps (fst (executeDeviceFlow opts e (pre @ c # next # later))) ! length pre)"
proof -
  from unremarkable_quiet [OF assms(3) assms(4) assms(5) assms(6)]
  have q: "quiet opts (length pre) c" and no_code: "poll_error c = None"
    by simp_all
  note live = executeDeviceFlow_append(1) [OF assms(1) assms(2)]
    and tr = executeDeviceFlow_append(2) [OF assms(1) assms(2)]
    and res = executeDeviceFlow_append(3) [OF assms(1) assms(2)]
  have same: "interval_after (interval_after (interval code) pre) [c] =
              interval_after (interval code) pre"
    using no_code by simp
  have clock: "clock_after (received_at e) (pre @ [c]) =
               clock_after (received_at e) pre + elapsed c"
    by (simp add: clock_after_def)
  note step = poll_loop_quiet_step [OF live q, of e code _ "interval_after (interval code) pre",
      unfolded same]
  have one: "snd (executeDeviceFlow opts e (pre @ [c])) =
           (if clock_after (received_at e) (pre @ [c]) < deadline e code then None
            else Some expired)"
    by (simp add: res step clock catch_clause_def del: poll_loop.simps)
      (simp add: catch_clause_def)
  have more: "executeDeviceFlow opts e (pre @ c # rest) =
           (fst (executeDeviceFlow opts e pre) @
              quiet_events opts e code c (clock_after (received_at e) pre)
                (interval_after (interval code) pre) @
              fst (poll_loop opts e code (deadline e code) rest (Suc (length pre))
                     (clock_after (received_at e) (pre @ [c]))
                     (interval_after (interval code) pre)),
            map_option catch_clause
              (snd (poll_loop opts e code (deadline e code) rest (Suc (length pre))
                     (clock_after (received_at e) (pre @ [c]))
                     (interval_after (interval code) pre))))" for rest
    by (rule prod_eqI) (simp_all add: tr res step clock del: poll_loop.simps)
  have again: "sleeps (fst (executeDeviceFlow opts e (pre @ c # nxt # later))) ! Suc (length pre) =
            sleeps (fst (executeDeviceFlow opts e (pre @ c # nxt # later))) ! length pre"
    if "clock_after (received_at e) (pre @ [c]) < deadline e code" for nxt later
  proof -
    have "sleeps (fst (executeDeviceFlow opts e (pre @ c # nxt # later))) =
          sleeps (fst (executeDeviceFlow opts e pre)) @
          interval_after (interval code) pre # interval_after (interval code) pre #
          (if quiet opts (Suc (length pre)) nxt
             then sleeps (fst (poll_loop opts e code (deadline e code) later
                     (Suc (Suc (length pre)))
                     (clock_after (received_at e) (pre @ [c]) + elapsed nxt)
                     (interval_after (interval_after (interval code) pre) [nxt])))
             else [])"
      by (simp add: more sleeps_poll_loop_Cons [OF that] del: poll_loop.simps)
    then show ?thesis
      by (simp add: nth_append executeDeviceFlow_None_counts(2) [OF assms(1)])
  qed
  from one more again show ?thesis by blast
qed

theorem empty_response_keeps_polling_witness:
  "snd (executeDeviceFlow sample_opts sample_env
          ([answering 400 pending] @ [answering 200 no_fields])) = None \<and>
   sleeps (fst (executeDeviceFlow sample_opts sample_env
          ([answering 400 pending] @ answering 200 no_fields # answering 400 pending #
             [answering 200 granted]))) ! Suc (length [answering 400 pending]) =
   sleeps (fst (executeDeviceFlow sample_opts sample_env
          ([answering 400 pending] @ answering 200 no_fields # answering 400 pending #
             [answering 200 granted]))) ! length [answering 400 pending]"
proof -
  have still: "snd (executeDeviceFlow sample_opts sample_env [answering 400 pending]) = None"
    by code_simp
  have req: "snd (requestDeviceCode sample_env) = Returns sample_grant"
    by code_simp
  have ping: "notified sample_opts (length [answering 400 pending]) = Returns ()"
    by code_simp
  have fetched: "polled (answering 200 no_fields) = Returns no_fields"
    by code_simp
  have no_error: "populated (error no_fields) = None"
    by code_simp
  have no_key: "populated (api_key no_fields) = None"
    by code_simp
  have in_time: "clock_after (received_at sample_env)
                   ([answering 400 pending] @ [answering 200 no_fields])
                 < deadline sample_env sample_grant"
    by code_simp
  note run = empty_response_keeps_polling [OF still req ping fetched no_error no_key]
  from run [THEN conjunct1] in_time
  have one: "snd (executeDeviceFlow sample_opts sample_env
          ([answering 400 pending] @ [answering 200 no_fields])) = None"
    by (simp only: if_True)
  from run [THEN conjunct2, THEN conjunct2, rule_format, OF in_time,
      of "answering 400 pending" "[answering 200 granted]"] one
  show ?thesis by (simp only: simp_thms)
qed



text \<open>
  C1, as stated, fails. The deadline is tested at the head of each cycle only, before the
  wait. With a grant valid for 10 seconds and an interval of 5, received at 50 ms, the
  deadline is at 10050 ms. The second cycle begins at 5150 ms, before the deadline; its
  wait ends at 10150 ms, after it; the poll is sent all the same, and the key it brings is
  returned as a success. So a poll is sent after the deadline has passed, and a flow
  whose deadline elapsed before any terminal response does not end as expired.
\<close>

theorem poll_after_deadline_counterexample:
  "snd (requestDeviceCode brief_env) = Returns brief_grant \<and>
   deadline brief_env brief_grant = 10050 \<and>
   polls (fst (executeDeviceFlow sample_opts brief_env
                 [answering 400 pending, answering 200 granted])) = [5050, 10150] \<and>
   snd (executeDeviceFlow sample_opts brief_env
          [answering 400 pending, answering 200 granted]) =
     Some \<lparr>success = True, apiKey = Some ''sk_live_123'', keyPrefix = None, userId = None,
           res_email = Some ''a@b.com'', res_provider = Some ''github'', res_error = None\<rparr>"
  by code_simp

text \<open>
  C1, amended. Let the device-code request succeed. If the loop's test, made before each
  wait-then-poll cycle, finds the clock at or past the deadline (\<open>expires_in\<close> seconds
  after the clock was read, once the code had been shown), the flow returns
  \<open>{success: false, error: "Device code expired. Please try again."}\<close> and sends no
  further poll: this holds at the first test (no poll is sent at all), and at the test
  after any quiet cycle \<open>c\<close> that follows cycles \<open>pre\<close> after which the flow was still
  polling (the poll of \<open>c\<close> is the last one, whatever the script holds after it). And
  the test comes before every cycle: each cycle in the trace began at a time before the
  deadline. Nothing is said about the time of the poll itself, which comes after the
  cycle's wait.
\<close>

theorem deadline_at_loop_test:
  assumes "snd (requestDeviceCode e) = Returns code"
  shows "(onCodeReceived opts (user_code code) (verification_uri code) = Returns () \<and>
          deadline e code \<le> received_at e \<longrightarrow>
            executeDeviceFlow opts e cs =
              (prologue e code, Some (failure ''Device code expired. Please try again.''))) \<and>
         (snd (executeDeviceFlow opts e pre) = None \<and> quiet opts (length pre) c \<and>
          deadline e code \<le> clock_after (received_at e) (pre @ [c]) \<longrightarrow>
            snd (executeDeviceFlow opts e (pre @ c # rest)) =
              Some (failure ''Device code expired. Please try again.'') \<and>
            length (polls (fst (executeDeviceFlow opts e (pre @ c # rest)))) =
              Suc (length pre) \<and>
            fst (executeDeviceFlow opts e (pre @ c # rest)) =
              fst (executeDeviceFlow opts e (pre @ [c]))) \<and>
         (\<forall>t \<in> set (cycle_starts (fst (executeDeviceFlow opts e cs))). t < deadline e code)"
proof (intro conjI impI)
  assume "onCodeReceived opts (user_code code) (verification_uri code) = Returns () \<and>
          deadline e code \<le> received_at e"
  then have cb: "onCodeReceived opts (user_code code) (verification_uri code) = Returns ()"
    and late: "\<not> received_at e < deadline e code"
    by simp_all
  show "executeDeviceFlow opts e cs =
          (prologue e code, Some (failure ''Device code expired. Please try again.''))"
    by (rule prod_eqI)
      (simp_all add: executeDeviceFlow_polling [OF assms cb] poll_loop_expired [OF late]
        catch_clause_def expired_def)
next
  assume h: "snd (executeDeviceFlow opts e pre) = None \<and> quiet opts (length pre) c \<and>
          deadline e code \<le> clock_after (received_at e) (pre @ [c])"
  then have still: "snd (executeDeviceFlow opts e pre) = None"
    and q: "quiet opts (length pre) c"
    and late: "\<not> clock_after (received_at e) pre + elapsed c < deadline e code"
    by (simp_all add: clock_after_def)
  note live = executeDeviceFlow_append(1) [OF still assms]
    and tr = executeDeviceFlow_append(2) [OF still assms]
    and res = executeDeviceFlow_append(3) [OF still assms]
  note step = poll_loop_quiet_step [OF live q]
  show "snd (executeDeviceFlow opts e (pre @ c # rest)) =
          Some (failure ''Device code expired. Please try again.'')"
    by (simp add: res step poll_loop_expired [OF late] catch_clause_def expired_def
          del: poll_loop.simps)
  show "length (polls (fst (executeDeviceFlow opts e (pre @ c # rest)))) = Suc (length pre)"
    by (simp add: tr step poll_loop_expired [OF late] executeDeviceFlow_None_counts [OF still]
          del: poll_loop.simps)
  show "fst (executeDeviceFlow opts e (pre @ c # rest)) =
          fst (executeDeviceFlow opts e (pre @ [c]))"
    by (simp add: tr step poll_loop_expired [OF late] del: poll_loop.simps)
next
  show "\<forall>t \<in> set (cycle_starts (fst (executeDeviceFlow opts e cs))). t < deadline e code"
    by (rule executeDeviceFlow_starts [OF assms])
qed

theorem deadline_at_loop_test_witness:
  "snd (executeDeviceFlow sample_opts brief_env
          ([answering 400 pending] @ answering 400 pending # [answering 200 granted])) =
     Some (failure ''Device code expired. Please try again.'') \<and>
   length (polls (fst (executeDeviceFlow sample_opts brief_env
          ([answering 400 pending] @ answering 400 pending # [answering 200 granted])))) =
     Suc (length [answering 400 pending])"
proof -
  have req: "snd (requestDeviceCode brief_env) = Returns brief_grant"
    by code_simp
  have reached:
    "snd (executeDeviceFlow sample_opts brief_env [answering 400 pending]) = None \<and>
     quiet sample_opts (length [answering 400 pending]) (answering 400 pending) \<and>
     deadline brief_env brief_grant
       \<le> clock_after (received_at brief_env) ([answering 400 pending] @ [answering 400 pending])"
    by code_simp
  note run = deadline_at_loop_test [OF req, of sample_opts _ "[answering 400 pending]"
      "answering 400 pending" "[answering 200 granted]"]
  from run [THEN conjunct2, THEN conjunct1, THEN mp, OF reached]
  show ?thesis by blast
qed

text \<open>
  C8, as stated, fails. \<open>onPolling\<close> is called inside the \<open>try\<close> block, so an error it
  raises reaches the \<open>catch\<close> clause: in the same world and with the same poll responses,
  a callback that returns lets the flow poll and succeed, while one that throws ends the
  flow before its first poll, with the callback's message as the error.
\<close>

theorem notification_error_counterexample:
  "snd (executeDeviceFlow sample_opts sample_env [answering 200 granted]) =
     Some \<lparr>success = True, apiKey = Some ''sk_live_123'', keyPrefix = None, userId = None,
           res_email = Some ''a@b.com'', res_provider = Some ''github'', res_error = None\<rparr> \<and>
   snd (executeDeviceFlow failing_display sample_env [answering 200 granted]) =
     Some (failure ''spinner failed'') \<and>
   polls (fst (executeDeviceFlow sample_opts sample_env [answering 200 granted])) = [5050] \<and>
   polls (fst (executeDeviceFlow failing_display sample_env [answering 200 granted])) = []"
  by code_simp

text \<open>
  C8, amended. A notification that returns cannot alter the decisions. Take two sets of
  options that differ at most in \<open>onPolling\<close>, each with no callback or with one that
  returns at every call. Then in the same world and with the same script of poll
  responses the flow returns the same result, and its traces differ only in the calls of
  \<open>onPolling\<close> themselves: the same sleeps, polls and saves at the same times. A
  notification that throws does alter them: in a flow still polling after the cycles
  \<open>pre\<close>, it ends the flow with \<open>success: false\<close> and its message as the error, and the
  poll of its cycle is not sent.
\<close>

theorem notification_without_influence:
  "(onCodeReceived o1 = onCodeReceived o2 \<and> saveCredentials o1 = saveCredentials o2 \<and>
    (\<forall>n. notified o1 n = Returns ()) \<and> (\<forall>n. notified o2 n = Returns ()) \<longrightarrow>
      snd (executeDeviceFlow o1 e cs) = snd (executeDeviceFlow o2 e cs) \<and>
      filter (\<lambda>ev. snd ev \<noteq> Polling) (fst (executeDeviceFlow o1 e cs)) =
      filter (\<lambda>ev. snd ev \<noteq> Polling) (fst (executeDeviceFlow o2 e cs))) \<and>
   (snd (executeDeviceFlow opts e pre) = None \<and> notified opts (length pre) = Throws x \<longrightarrow>
      snd (executeDeviceFlow opts e (pre @ c # rest)) = Some (failure (message x)) \<and>
      length (polls (fst (executeDeviceFlow opts e (pre @ c # rest)))) = length pre)"
proof (intro conjI impI)
  assume h: "onCodeReceived o1 = onCodeReceived o2 \<and> saveCredentials o1 = saveCredentials o2 \<and>
    (\<forall>n. notified o1 n = Returns ()) \<and> (\<forall>n. notified o2 n = Returns ())"
  then have cbs: "onCodeReceived o1 = onCodeReceived o2"
    and flags: "saveCredentials o1 = saveCredentials o2"
    and r1: "\<forall>n. notified o1 n = Returns ()" and r2: "\<forall>n. notified o2 n = Returns ()"
    by simp_all
  have "snd (executeDeviceFlow o1 e cs) = snd (executeDeviceFlow o2 e cs) \<and>
      filter (\<lambda>ev. snd ev \<noteq> Polling) (fst (executeDeviceFlow o1 e cs)) =
      filter (\<lambda>ev. snd ev \<noteq> Polling) (fst (executeDeviceFlow o2 e cs))"
  proof (cases "snd (requestDeviceCode e)")
    case (Throws x)
    then show ?thesis
      by (simp add: executeDeviceFlow_request_fails)
  next
    case (Returns code)
    show ?thesis
    proof (cases "onCodeReceived o1 (user_code code) (verification_uri code)")
      case (Throws x)
      with cbs have "onCodeReceived o2 (user_code code) (verification_uri code) = Throws x"
        by simp
      with Throws show ?thesis
        by (simp add: executeDeviceFlow_callback_fails [OF Returns])
    next
      case cb: (Returns u)
      then have cb1: "onCodeReceived o1 (user_code code) (verification_uri code) = Returns ()"
        by simp
      with cbs have
        cb2: "onCodeReceived o2 (user_code code) (verification_uri code) = Returns ()"
        by simp
      from poll_loop_same_decisions [OF flags r1 r2, of e code "deadline e code"
          cs 0 "received_at e" "interval code"]
      show ?thesis
        by (simp add: executeDeviceFlow_polling [OF Returns cb1]
              executeDeviceFlow_polling [OF Returns cb2] prologue_def)
    qed
  qed
  then show "snd (executeDeviceFlow o1 e cs) = snd (executeDeviceFlow o2 e cs)"
    and "filter (\<lambda>ev. snd ev \<noteq> Polling) (fst (executeDeviceFlow o1 e cs)) =
      filter (\<lambda>ev. snd ev \<noteq> Polling) (fst (executeDeviceFlow o2 e cs))"
    by simp_all
next
  assume "snd (executeDeviceFlow opts e pre) = None \<and> notified opts (length pre) = Throws x"
  then show "snd (executeDeviceFlow opts e (pre @ c # rest)) = Some (failure (message x))"
    by (simp add: flow_notify_throws)
next
  assume "snd (executeDeviceFlow opts e pre) = None \<and> notified opts (length pre) = Throws x"
  then show "length (polls (fst (executeDeviceFlow opts e (pre @ c # rest)))) = length pre"
    by (simp add: flow_notify_throws_trace)
qed

theorem notification_without_influence_witness:
  "snd (executeDeviceFlow sample_opts sample_env [answering 400 pending, answering 200 granted]) =
   snd (executeDeviceFlow (sample_opts\<lparr>onPolling := None\<rparr>) sample_env
          [answering 400 pending, answering 200 granted]) \<and>
   filter (\<lambda>ev. snd ev \<noteq> Polling)
     (fst (executeDeviceFlow sample_opts sample_env
             [answering 400 pending, answering 200 granted])) =
   filter (\<lambda>ev. snd ev \<noteq> Polling)
     (fst (executeDeviceFlow (sample_opts\<lparr>onPolling := None\<rparr>) sample_env
             [answering 400 pending, answering 200 granted])) \<and>
   snd (executeDeviceFlow failing_display sample_env ([] @ answering 200 granted # [])) =
     Some (failure ''spinner failed'')"
proof -
  have same:
    "onCodeReceived sample_opts = onCodeReceived (sample_opts\<lparr>onPolling := None\<rparr>) \<and>
     saveCredentials sample_opts = saveCredentials (sample_opts\<lparr>onPolling := None\<rparr>) \<and>
     (\<forall>n. notified sample_opts n = Returns ()) \<and>
     (\<forall>n. notified (sample_opts\<lparr>onPolling := None\<rparr>) n = Returns ())"
    by (simp add: notified_def sample_opts_def)
  have thrown:
    "snd (executeDeviceFlow failing_display sample_env []) = None \<and>
     notified failing_display (length ([] :: cycle list)) = Throws (Error ''spinner failed'')"
    by code_simp
  note quiet_run = notification_without_influence [where ?o1.0 = sample_opts
      and ?o2.0 = "sample_opts\<lparr>onPolling := None\<rparr>" and e = sample_env
      and cs = "[answering 400 pending, answering 200 granted]",
      THEN conjunct1, THEN mp, OF same]
  note loud_run = notification_without_influence [where opts = failing_display
      and e = sample_env and pre = "[]" and c = "answering 200 granted" and rest = "[]",
      THEN conjunct2, THEN mp, OF thrown]
  from quiet_run loud_run show ?thesis
    by simp
qed

text \<open>
  C6, as stated, fails in its last part. The save is made inside the \<open>try\<close> block, before
  the \<open>return\<close>; when the store cannot be written, the flow has called it and yet ends
  with \<open>success: false\<close>.
\<close>

theorem credential_store_use_counterexample:
  "snd (executeDeviceFlow sample_opts readonly_env [answering 200 granted]) =
     Some (failure ''EACCES: permission denied'') \<and>
   success (failure ''EACCES: permission denied'') = False \<and>
   saves (fst (executeDeviceFlow sample_opts readonly_env [answering 200 granted])) =
     [(5150, \<lparr>cred_apiKey = ''sk_live_123'', cred_email = Some ''a@b.com'',
              cred_provider = Some ''github'', createdAt = 5150\<rparr>)]"
  by code_simp

text \<open>
  C6, amended. With the option set to false the store is never called, and any successful
  flow still returns a populated API key. The store is called at most once per flow, only
  when the option is not false, only after a poll of the flow has returned an authorized
  response (whose key, email and provider the credential carries), and only as the
  flow's last action, with a credential whose \<open>createdAt\<close> is the time of the call. If
  that save returns, the flow returns \<open>success: true\<close> with the credential's key, email
  and provider; if it throws, the flow returns \<open>success: false\<close> with the save's
  message. In every other flow that does not succeed (the save not having thrown), the
  store is never called.
\<close>

theorem credential_store_use:
  "(saveCredentials opts = Some False \<longrightarrow> saves (fst (executeDeviceFlow opts e cs)) = []) \<and>
   (\<forall>r. snd (executeDeviceFlow opts e cs) = Some r \<and> success r \<longrightarrow>
      (\<exists>k. k \<noteq> [] \<and> apiKey r = Some k)) \<and>
   length (saves (fst (executeDeviceFlow opts e cs))) \<le> 1 \<and>
   (\<forall>t cr. (t, cr) \<in> set (saves (fst (executeDeviceFlow opts e cs))) \<longrightarrow>
      saveCredentials opts \<noteq> Some False \<and> createdAt cr = t \<and>
      (\<exists>c tok. c \<in> set cs \<and> polled c = Returns tok \<and> populated (error tok) = None \<and>
         populated (api_key tok) = Some (cred_apiKey cr) \<and>
         email tok = cred_email cr \<and> provider tok = cred_provider cr) \<and>
      (\<exists>tr. fst (executeDeviceFlow opts e cs) = tr @ [(t, SaveCredentials cr)]) \<and>
      (save_result e = Returns () \<and>
         (\<exists>r. snd (executeDeviceFlow opts e cs) = Some r \<and> success r \<and>
              apiKey r = Some (cred_apiKey cr) \<and> res_email r = cred_email cr \<and>
              res_provider r = cred_provider cr) \<or>
       (\<exists>x. save_result e = Throws x \<and>
          snd (executeDeviceFlow opts e cs) = Some (failure (message x))))) \<and>
   (\<forall>r. snd (executeDeviceFlow opts e cs) = Some r \<and> \<not> success r \<and>
        save_result e = Returns () \<longrightarrow>
      saves (fst (executeDeviceFlow opts e cs)) = [])"
proof -
  let ?X = "executeDeviceFlow opts e cs"
  have key: "\<exists>k. k \<noteq> [] \<and> apiKey r = Some k" if "snd ?X = Some r \<and> success r" for r
    using executeDeviceFlow_result [of opts e cs r] that
    by (auto simp: authorized_def)
  from executeDeviceFlow_saves [of opts e cs]
  consider (none) "saves (fst ?X) = []"
    | (saved) tr t k tok where
      "\<exists>c. c \<in> set cs \<and> grants c k tok"
      "fst ?X = tr @ [(t, SaveCredentials
                \<lparr>cred_apiKey = k, cred_email = email tok, cred_provider = provider tok,
                 createdAt = t\<rparr>)]"
      "saves tr = []" "shouldSave opts"
      "save_result e = Returns () \<and> snd ?X = Some (authorized k tok) \<or>
       (\<exists>x. save_result e = Throws x \<and> snd ?X = Some (failure (message x)))"
    by blast
  then show ?thesis
  proof cases
    case none
    with key show ?thesis by simp
  next
    case saved
    let ?cr = "\<lparr>cred_apiKey = k, cred_email = email tok, cred_provider = provider tok,
                 createdAt = t\<rparr>"
    from saved(2) saved(3) have sv: "saves (fst ?X) = [(t, ?cr)]"
      by simp
    from saved(4) have on: "saveCredentials opts \<noteq> Some False"
      by (auto simp: shouldSave_def)
    from saved(1) have granted:
      "\<exists>c tok'. c \<in> set cs \<and> polled c = Returns tok' \<and> populated (error tok') = None \<and>
         populated (api_key tok') = Some (cred_apiKey ?cr) \<and>
         email tok' = cred_email ?cr \<and> provider tok' = cred_provider ?cr"
      by (auto simp: grants_def)
    from saved(5) have outcome:
      "save_result e = Returns () \<and>
         (\<exists>r. snd ?X = Some r \<and> success r \<and> apiKey r = Some (cred_apiKey ?cr) \<and>
              res_email r = cred_email ?cr \<and> res_provider r = cred_provider ?cr) \<or>
       (\<exists>x. save_result e = Throws x \<and> snd ?X = Some (failure (message x)))"
      by (auto simp: authorized_def)
    then have quiet_failure: "\<not> (snd ?X = Some r \<and> \<not> success r \<and> save_result e = Returns ())"
      for r
      by auto
    from saved(2) have last: "\<exists>tr. fst ?X = tr @ [(t, SaveCredentials ?cr)]"
      by blast
    show ?thesis
      using key on granted outcome quiet_failure last
      by (simp add: sv)
  qed
qed

theorem credential_store_use_witness:
  "saves (fst (executeDeviceFlow (sample_opts\<lparr>saveCredentials := Some False\<rparr>) sample_env
                 [answering 200 granted])) = [] \<and>
   (\<exists>tr. fst (executeDeviceFlow sample_opts sample_env [answering 200 granted]) =
      tr @ [(5150, SaveCredentials
                     \<lparr>cred_apiKey = ''sk_live_123'', cred_email = Some ''a@b.com'',
                      cred_provider = Some ''github'', createdAt = 5150\<rparr>)]) \<and>
   (\<exists>r. snd (executeDeviceFlow sample_opts sample_env [answering 200 granted]) = Some r \<and>
      success r \<and> apiKey r = Some ''sk_live_123'')"
proof -
  let ?cr = "\<lparr>cred_apiKey = ''sk_live_123'', cred_email = Some ''a@b.com'',
              cred_provider = Some ''github'', createdAt = 5150\<rparr>"
  have off: "saveCredentials (sample_opts\<lparr>saveCredentials := Some False\<rparr>) = Some False"
    by simp
  have mem: "(5150, ?cr) \<in>
             set (saves (fst (executeDeviceFlow sample_opts sample_env [answering 200 granted])))"
    by code_simp
  have ok: "save_result sample_env = Returns ()"
    by (simp add: sample_env_def)
  note quiet_run = credential_store_use [of "sample_opts\<lparr>saveCredentials := Some False\<rparr>"
      sample_env "[answering 200 granted]"]
  note run = credential_store_use [of sample_opts sample_env "[answering 200 granted]"]
  from quiet_run [THEN conjunct1, THEN mp, OF off]
    run [THEN conjunct2, THEN conjunct2, THEN conjunct2, THEN conjunct1, rule_format, OF mem] ok
  show ?thesis
    by auto
qed

text \<open>
  C5. Whatever the options, the world and the script, the flow hands its caller a result
  and never an exception. An error raised by the device-code request (a failed fetch, a
  status outside 2xx, a body that is not JSON), by \<open>onCodeReceived\<close>, by \<open>onPolling\<close> in
  any cycle, by a poll in any cycle (a failed fetch, a status other than 2xx and 400,
  a body that is not JSON) or by the credential store ends the flow with
  \<open>{success: false, error}\<close>, where \<open>error\<close> is the message of the error (or
  \<open>Unknown error\<close> for a thrown value that is not an \<open>Error\<close>); so does any exception the
  \<open>try\<close> block ends with. Every result is either a success with a key and no error, or
  a failure with an error message. And the flow does return: it has a result as soon as
  the script covers the time up to the deadline.
\<close>

theorem errors_become_results:
  "(snd (requestDeviceCode e) = Throws x \<longrightarrow>
      snd (executeDeviceFlow opts e cs) = Some (failure (message x))) \<and>
   (snd (requestDeviceCode e) = Returns code \<and>
    onCodeReceived opts (user_code code) (verification_uri code) = Throws x \<longrightarrow>
      snd (executeDeviceFlow opts e cs) = Some (failure (message x))) \<and>
   (snd (executeDeviceFlow opts e pre) = None \<and> notified opts (length pre) = Throws x \<longrightarrow>
      snd (executeDeviceFlow opts e (pre @ c # rest)) = Some (failure (message x))) \<and>
   (snd (executeDeviceFlow opts e pre) = None \<and> notified opts (length pre) = Returns () \<and>
    polled c = Throws x \<longrightarrow>
      snd (executeDeviceFlow opts e (pre @ c # rest)) = Some (failure (message x))) \<and>
   (snd (executeDeviceFlow opts e pre) = None \<and> notified opts (length pre) = Returns () \<and>
    polled c = Returns tok \<and> populated (error tok) = None \<and>
    populated (api_key tok) = Some k \<and> saveCredentials opts \<noteq> Some False \<and>
    save_result e = Throws x \<longrightarrow>
      snd (executeDeviceFlow opts e (pre @ c # rest)) = Some (failure (message x))) \<and>
   (snd (try_block opts e cs) = Some (Throws x) \<longrightarrow>
      snd (executeDeviceFlow opts e cs) = Some (failure (message x))) \<and>
   (\<forall>r. snd (executeDeviceFlow opts e cs) = Some r \<longrightarrow>
      success r \<and> res_error r = None \<and> (\<exists>k. apiKey r = Some k) \<or>
      \<not> success r \<and> (\<exists>m. res_error r = Some m)) \<and>
   ((\<forall>code. snd (requestDeviceCode e) = Returns code \<longrightarrow>
       deadline e code \<le> clock_after (received_at e) cs) \<longrightarrow>
      (\<exists>r. snd (executeDeviceFlow opts e cs) = Some r))"
proof (intro conjI impI allI)
  assume "snd (requestDeviceCode e) = Throws x"
  then show "snd (executeDeviceFlow opts e cs) = Some (failure (message x))"
    by (simp add: executeDeviceFlow_request_fails)
next
  assume "snd (requestDeviceCode e) = Returns code \<and>
    onCodeReceived opts (user_code code) (verification_uri code) = Throws x"
  then show "snd (executeDeviceFlow opts e cs) = Some (failure (message x))"
    by (simp add: executeDeviceFlow_callback_fails)
next
  assume "snd (executeDeviceFlow opts e pre) = None \<and> notified opts (length pre) = Throws x"
  then show "snd (executeDeviceFlow opts e (pre @ c # rest)) = Some (failure (message x))"
    by (simp add: flow_notify_throws)
next
  assume "snd (executeDeviceFlow opts e pre) = None \<and> notified opts (length pre) = Returns () \<and>
    polled c = Throws x"
  then show "snd (executeDeviceFlow opts e (pre @ c # rest)) = Some (failure (message x))"
    by (simp add: flow_poll_throws)
next
  assume "snd (executeDeviceFlow opts e pre) = None \<and> notified opts (length pre) = Returns () \<and>
    polled c = Returns tok \<and> populated (error tok) = None \<and>
    populated (api_key tok) = Some k \<and> saveCredentials opts \<noteq> Some False \<and>
    save_result e = Throws x"
  then show "snd (executeDeviceFlow opts e (pre @ c # rest)) = Some (failure (message x))"
    by (elim conjE) (rule flow_save_throws)
next
  assume "snd (try_block opts e cs) = Some (Throws x)"
  then show "snd (executeDeviceFlow opts e cs) = Some (failure (message x))"
    by (auto simp: executeDeviceFlow_def catch_clause_def split: prod.splits)
next
  fix r
  assume "snd (executeDeviceFlow opts e cs) = Some r"
  from executeDeviceFlow_result [OF this]
  show "success r \<and> res_error r = None \<and> (\<exists>k. apiKey r = Some k) \<or>
        \<not> success r \<and> (\<exists>m. res_error r = Some m)"
    by (auto simp: authorized_def failure_def)
next
  assume "\<forall>code. snd (requestDeviceCode e) = Returns code \<longrightarrow>
       deadline e code \<le> clock_after (received_at e) cs"
  then show "\<exists>r. snd (executeDeviceFlow opts e cs) = Some r"
    by (rule executeDeviceFlow_terminates)
qed

theorem errors_become_results_witness:
  "snd (executeDeviceFlow failing_display sample_env ([] @ answering 200 granted # [])) =
     Some (failure ''spinner failed'') \<and>
   snd (executeDeviceFlow sample_opts readonly_env ([] @ answering 200 granted # [])) =
     Some (failure ''EACCES: permission denied'') \<and>
   snd (executeDeviceFlow sample_opts sample_env
          ([] @ \<lparr>sleep_took = 5000, token_fetch = Throws (Error ''fetch failed''),
                   poll_took = 30\<rparr> # [])) =
     Some (failure ''fetch failed'') \<and>
   (\<exists>r. snd (executeDeviceFlow sample_opts brief_env
               [answering 400 pending, answering 400 pending]) = Some r)"
proof -
  let ?down = "\<lparr>sleep_took = 5000, token_fetch = Throws (Error ''fetch failed''),
                poll_took = 30\<rparr>"
  have display:
    "snd (executeDeviceFlow failing_display sample_env []) = None \<and>
     notified failing_display (length ([] :: cycle list)) = Throws (Error ''spinner failed'')"
    by code_simp
  have store:
    "snd (executeDeviceFlow sample_opts readonly_env []) = None \<and>
     notified sample_opts (length ([] :: cycle list)) = Returns () \<and>
     polled (answering 200 granted) = Returns granted \<and>
     populated (error granted) = None \<and>
     populated (api_key granted) = Some ''sk_live_123'' \<and>
     saveCredentials sample_opts \<noteq> Some False \<and>
     save_result readonly_env = Throws (Error ''EACCES: permission denied'')"
    by code_simp
  have network:
    "snd (executeDeviceFlow sample_opts sample_env []) = None \<and>
     notified sample_opts (length ([] :: cycle list)) = Returns () \<and>
     polled ?down = Throws (Error ''fetch failed'')"
    by code_simp
  have req: "snd (requestDeviceCode brief_env) = Returns brief_grant"
    by code_simp
  have late: "deadline brief_env brief_grant
              \<le> clock_after (received_at brief_env) [answering 400 pending, answering 400 pending]"
    by code_simp
  from req late have covered:
    "\<forall>code. snd (requestDeviceCode brief_env) = Returns code \<longrightarrow>
       deadline brief_env code
       \<le> clock_after (received_at brief_env) [answering 400 pending, answering 400 pending]"
    by simp
  note a = errors_become_results [of sample_env _ failing_display _ _ "[]"
      "answering 200 granted" "[]", THEN conjunct2, THEN conjunct2, THEN conjunct1, THEN mp,
      OF display]
  note b = errors_become_results [of readonly_env _ sample_opts _ _ "[]"
      "answering 200 granted" "[]", THEN conjunct2, THEN conjunct2, THEN conjunct2,
      THEN conjunct2, THEN conjunct1, THEN mp, OF store]
  note c = errors_become_results [of sample_env _ sample_opts _ _ "[]" ?down "[]",
      THEN conjunct2, THEN conjunct2, THEN conjunct2, THEN conjunct1, THEN mp, OF network]
  note d = errors_become_results [of brief_env _ sample_opts
      "[answering 400 pending, answering 400 pending]", THEN conjunct2, THEN conjunct2,
      THEN conjunct2, THEN conjunct2, THEN conjunct2, THEN conjunct2, THEN conjunct2,
      THEN mp, OF covered]
  from a b c d show ?thesis
    by simp
qed

end
